theory Spec2Isabelle
  imports Main "HOL-Library.Sublist" "HOL-Library.AList" "HOL-Library.Multiset"
begin

section \<open>Strings and values of the host language\<close>

text \<open>
  A JavaScript string is a sequence of UTF-16 code units. The model keeps the code units
  as natural numbers; \<open>js\<close> embeds an ASCII literal. The literals of \<^verbatim>\<open>icons.js\<close>
  that are not ASCII (\<^verbatim>\<open>Relat\<close>\<open>\<dots>\<close>\<^verbatim>\<open>rio\<close> and the like) are written with the code unit
  of the accented letter.
\<close>

type_synonym jsstring = "nat list"

definition js :: "string \<Rightarrow> jsstring" where
  "js s = map of_char s"

text \<open>\<^verbatim>\<open>String.prototype.includes\<close>: the pattern occurs as a contiguous run of code units.\<close>

fun includes_js :: "jsstring \<Rightarrow> jsstring \<Rightarrow> bool" where
  "includes_js [] p = (p = [])"
| "includes_js (c # cs) p = (prefix p (c # cs) \<or> includes_js cs p)"

text \<open>
  \<^verbatim>\<open>String.prototype.trim\<close> removes the WhiteSpace and LineTerminator code points of
  ECMAScript from both ends.
\<close>

definition js_whitespace :: "nat \<Rightarrow> bool" where
  "js_whitespace c \<longleftrightarrow>
     c \<in> set [9, 10, 11, 12, 13, 32, 160, 5760, 8192, 8193, 8194, 8195, 8196, 8197, 8198,
              8199, 8200, 8201, 8202, 8232, 8233, 8239, 8287, 12288, 65279]"

definition trim :: "jsstring \<Rightarrow> jsstring" where
  "trim s = rev (dropWhile js_whitespace (rev (dropWhile js_whitespace s)))"

text \<open>
  The values the code handles: strings, \<^verbatim>\<open>undefined\<close>, and the built-in members that every
  plain object inherits from \<^verbatim>\<open>Object.prototype\<close> (functions, and the prototype object
  itself under \<^verbatim>\<open>__proto__\<close>).
\<close>

datatype jsval = Undefined | Str jsstring | Builtin jsstring

fun truthy :: "jsval \<Rightarrow> bool" where
  "truthy Undefined = False"
| "truthy (Str s) = (s \<noteq> [])"
| "truthy (Builtin n) = True"

datatype js_error = TypeError | NoModificationAllowedError

section \<open>The document\<close>

text \<open>
  An element has an identity (the object reference the script holds), a local name, its
  attributes in order, and its children. Text nodes carry their data.
\<close>

type_synonym nid = nat
type_synonym attrs = "(jsstring \<times> jsstring) list"

datatype node = Element nid jsstring attrs "node list" | Text jsstring

text \<open>
  \<open>document\<close>: the children of the Document node. \<open>detached\<close>: the roots of the subtrees
  that a rewriting of markup removed from their parent; the script may still hold
  references into them. \<open>next_id\<close>: the identity the next created element receives.
\<close>

record dom =
  document :: "node list"
  detached :: "node list"
  next_id :: nid

type_synonym outcome = "js_error option \<times> dom"

subsection \<open>Reading the tree\<close>

fun node_ids :: "node \<Rightarrow> nid list" and forest_ids :: "node list \<Rightarrow> nid list" where
  "node_ids (Text t) = []"
| "node_ids (Element i tg as cs) = i # forest_ids cs"
| "forest_ids [] = []"
| "forest_ids (c # cs) = node_ids c @ forest_ids cs"

text \<open>\<^verbatim>\<open>textContent\<close>: the data of the text nodes below, in tree order.\<close>

fun text_of :: "node \<Rightarrow> jsstring" and text_of_forest :: "node list \<Rightarrow> jsstring" where
  "text_of (Text t) = t"
| "text_of (Element i tg as cs) = text_of_forest cs"
| "text_of_forest [] = []"
| "text_of_forest (c # cs) = text_of c @ text_of_forest cs"

text \<open>
  \<open>chain i n\<close>: the element \<open>i\<close> inside \<open>n\<close> followed by its ancestors, nearest first;
  empty when \<open>n\<close> does not hold \<open>i\<close>.
\<close>

fun chain :: "nid \<Rightarrow> node \<Rightarrow> node list" and chain_forest :: "nid \<Rightarrow> node list \<Rightarrow> node list" where
  "chain i (Text t) = []"
| "chain i (Element j tg as cs) =
     (if i = j then [Element j tg as cs]
      else (case chain_forest i cs of [] \<Rightarrow> [] | x # xs \<Rightarrow> (x # xs) @ [Element j tg as cs]))"
| "chain_forest i [] = []"
| "chain_forest i (c # cs) = (case chain i c of [] \<Rightarrow> chain_forest i cs | x # xs \<Rightarrow> x # xs)"

definition all_nodes :: "dom \<Rightarrow> node list" where
  "all_nodes d = document d @ detached d"

definition lookup :: "nid \<Rightarrow> dom \<Rightarrow> node option" where
  "lookup i d = (case chain_forest i (all_nodes d) of [] \<Rightarrow> None | x # xs \<Rightarrow> Some x)"

fun attrs_of :: "node \<Rightarrow> attrs" where
  "attrs_of (Element i tg as cs) = as"
| "attrs_of (Text t) = []"

fun children_of :: "node \<Rightarrow> node list" where
  "children_of (Element i tg as cs) = cs"
| "children_of (Text t) = []"

definition getAttribute :: "nid \<Rightarrow> jsstring \<Rightarrow> dom \<Rightarrow> jsstring option" where
  "getAttribute i k d = (case lookup i d of None \<Rightarrow> None | Some n \<Rightarrow> map_of (attrs_of n) k)"

definition hasAttribute :: "nid \<Rightarrow> jsstring \<Rightarrow> dom \<Rightarrow> bool" where
  "hasAttribute i k d \<longleftrightarrow> getAttribute i k d \<noteq> None"

definition textContent :: "nid \<Rightarrow> dom \<Rightarrow> jsstring" where
  "textContent i d = (case lookup i d of None \<Rightarrow> [] | Some n \<Rightarrow> text_of n)"

subsection \<open>Selectors\<close>

text \<open>
  The class attribute is a list of tokens separated by ASCII whitespace. A selector is a
  predicate on an element's local name and attributes.
\<close>

definition ascii_whitespace :: "nat \<Rightarrow> bool" where
  "ascii_whitespace c \<longleftrightarrow> c \<in> set [9, 10, 12, 13, 32]"

fun tokens :: "jsstring \<Rightarrow> jsstring \<Rightarrow> jsstring list" where
  "tokens cur [] = (if cur = [] then [] else [cur])"
| "tokens cur (c # cs) =
     (if ascii_whitespace c then (if cur = [] then tokens [] cs else cur # tokens [] cs)
      else tokens (cur @ [c]) cs)"

type_synonym selector = "jsstring \<Rightarrow> attrs \<Rightarrow> bool"

definition has_class :: "jsstring \<Rightarrow> selector" where
  "has_class c tg as \<longleftrightarrow>
     (case map_of as (js ''class'') of None \<Rightarrow> False | Some v \<Rightarrow> c \<in> set (tokens [] v))"

definition has_id :: "jsstring \<Rightarrow> selector" where
  "has_id x tg as \<longleftrightarrow> map_of as (js ''id'') = Some x"

definition has_attr :: "jsstring \<Rightarrow> selector" where
  "has_attr k tg as \<longleftrightarrow> map_of as k \<noteq> None"

definition tag_is :: "jsstring \<Rightarrow> selector" where
  "tag_is t tg as \<longleftrightarrow> tg = t"

definition sel_or :: "selector \<Rightarrow> selector \<Rightarrow> selector" where
  "sel_or p q tg as \<longleftrightarrow> p tg as \<or> q tg as"

definition sel_and :: "selector \<Rightarrow> selector \<Rightarrow> selector" where
  "sel_and p q tg as \<longleftrightarrow> p tg as \<and> q tg as"

text \<open>The elements of a subtree that match, in tree order (the root included).\<close>

fun matching :: "selector \<Rightarrow> node \<Rightarrow> nid list"
  and matching_forest :: "selector \<Rightarrow> node list \<Rightarrow> nid list" where
  "matching sel (Text t) = []"
| "matching sel (Element i tg as cs) =
     (if sel tg as then i # matching_forest sel cs else matching_forest sel cs)"
| "matching_forest sel [] = []"
| "matching_forest sel (c # cs) = matching sel c @ matching_forest sel cs"

text \<open>\<^verbatim>\<open>document.querySelectorAll\<close>: a static list, in document order.\<close>

definition querySelectorAll :: "selector \<Rightarrow> dom \<Rightarrow> nid list" where
  "querySelectorAll sel d = matching_forest sel (document d)"

text \<open>\<^verbatim>\<open>element.querySelector\<close>: the first matching descendant, or \<^verbatim>\<open>null\<close>.\<close>

definition querySelector :: "selector \<Rightarrow> nid \<Rightarrow> dom \<Rightarrow> nid option" where
  "querySelector sel i d =
     (case lookup i d of None \<Rightarrow> None
      | Some n \<Rightarrow> (case matching_forest sel (children_of n) of [] \<Rightarrow> None | x # xs \<Rightarrow> Some x))"

fun node_matches :: "selector \<Rightarrow> node \<Rightarrow> bool" where
  "node_matches sel (Element i tg as cs) = sel tg as"
| "node_matches sel (Text t) = False"

fun node_id :: "node \<Rightarrow> nid option" where
  "node_id (Element i tg as cs) = Some i"
| "node_id (Text t) = None"

text \<open>\<^verbatim>\<open>element.closest\<close>: the element itself or its nearest ancestor that matches.\<close>

definition closest :: "selector \<Rightarrow> nid \<Rightarrow> dom \<Rightarrow> nid option" where
  "closest sel i d =
     (case List.find (node_matches sel) (chain_forest i (all_nodes d)) of
        None \<Rightarrow> None | Some n \<Rightarrow> node_id n)"

subsection \<open>Changing the tree\<close>

text \<open>
  \<^verbatim>\<open>setAttribute\<close> replaces the value of an attribute the element has, in place, and
  appends the attribute otherwise.
\<close>

fun set_attr :: "nid \<Rightarrow> jsstring \<Rightarrow> jsstring \<Rightarrow> node \<Rightarrow> node"
  and set_attr_forest :: "nid \<Rightarrow> jsstring \<Rightarrow> jsstring \<Rightarrow> node list \<Rightarrow> node list" where
  "set_attr i k v (Text t) = Text t"
| "set_attr i k v (Element j tg as cs) =
     Element j tg (if i = j then AList.update k v as else as) (set_attr_forest i k v cs)"
| "set_attr_forest i k v [] = []"
| "set_attr_forest i k v (c # cs) = set_attr i k v c # set_attr_forest i k v cs"

definition setAttribute :: "nid \<Rightarrow> jsstring \<Rightarrow> jsstring \<Rightarrow> dom \<Rightarrow> dom" where
  "setAttribute i k v d =
     d\<lparr>document := set_attr_forest i k v (document d),
       detached := set_attr_forest i k v (detached d)\<rparr>"

text \<open>
  The two fragments of markup the script writes, \<^verbatim>\<open><i data-lucide="menu"></i>\<close> and
  \<^verbatim>\<open><i data-lucide="send"></i>\<close>, parse to one new element (in a context whose content
  is parsed as ordinary HTML, which a button and its descendants are).
\<close>

definition icon_markup :: "jsstring \<Rightarrow> nid \<Rightarrow> node" where
  "icon_markup name fresh = Element fresh (js ''i'') [(js ''data-lucide'', name)] []"

text \<open>
  Assigning \<^verbatim>\<open>innerHTML\<close> replaces the children of the element; the old children leave
  the tree.
\<close>

fun set_children :: "nid \<Rightarrow> node list \<Rightarrow> node \<Rightarrow> node"
  and set_children_forest :: "nid \<Rightarrow> node list \<Rightarrow> node list \<Rightarrow> node list" where
  "set_children i new (Text t) = Text t"
| "set_children i new (Element j tg as cs) =
     (if i = j then Element j tg as new else Element j tg as (set_children_forest i new cs))"
| "set_children_forest i new [] = []"
| "set_children_forest i new (c # cs) = set_children i new c # set_children_forest i new cs"

definition set_innerHTML :: "nid \<Rightarrow> (nid \<Rightarrow> node) \<Rightarrow> dom \<Rightarrow> dom" where
  "set_innerHTML i markup d =
     (case lookup i d of
        None \<Rightarrow> d
      | Some n \<Rightarrow>
          d\<lparr>document := set_children_forest i [markup (next_id d)] (document d),
            detached := set_children_forest i [markup (next_id d)] (detached d) @ children_of n,
            next_id := Suc (next_id d)\<rparr>)"

text \<open>
  Assigning \<^verbatim>\<open>outerHTML\<close> replaces the element in the child list of its parent. The
  setter raises when the parent is the Document and does nothing when there is no parent.
\<close>

fun replace_child :: "nid \<Rightarrow> node \<Rightarrow> node \<Rightarrow> node"
  and replace_in_forest :: "nid \<Rightarrow> node \<Rightarrow> node list \<Rightarrow> node list" where
  "replace_child i new (Text t) = Text t"
| "replace_child i new (Element j tg as cs) = Element j tg as (replace_in_forest i new cs)"
| "replace_in_forest i new [] = []"
| "replace_in_forest i new (c # cs) =
     (if node_id c = Some i then new # replace_in_forest i new cs
      else replace_child i new c # replace_in_forest i new cs)"

definition set_outerHTML :: "nid \<Rightarrow> (nid \<Rightarrow> node) \<Rightarrow> dom \<Rightarrow> outcome" where
  "set_outerHTML i markup d =
     (if Some i \<in> set (map node_id (document d)) then (Some NoModificationAllowedError, d)
      else if Some i \<in> set (map node_id (detached d)) then (None, d)
      else (case lookup i d of
              None \<Rightarrow> (None, d)
            | Some n \<Rightarrow>
                (None,
                 d\<lparr>document := map (replace_child i (markup (next_id d))) (document d),
                   detached := map (replace_child i (markup (next_id d))) (detached d) @ [n],
                   next_id := Suc (next_id d)\<rparr>)))"

text \<open>\<^verbatim>\<open>NodeList.forEach\<close> with a callback that may raise: the first exception ends the loop.\<close>

fun forEach :: "(nid \<Rightarrow> dom \<Rightarrow> outcome) \<Rightarrow> nid list \<Rightarrow> dom \<Rightarrow> outcome" where
  "forEach f [] d = (None, d)"
| "forEach f (x # xs) d =
     (case f x d of (None, d') \<Rightarrow> forEach f xs d' | (Some e, d') \<Rightarrow> (Some e, d'))"

section \<open>The host\<close>

text \<open>
  What the script takes from its surroundings:
  \<^item> \<open>lucide\<close>: the \<^verbatim>\<open>createIcons\<close> function of the rendering library when the global
    \<^verbatim>\<open>lucide\<close> is defined; what it does to the document is not part of this file;
  \<^item> \<open>tagName_assignment_raises\<close>: whether assigning to the read-only \<^verbatim>\<open>tagName\<close> of an
    element raises. The body of a class is strict code and \<^verbatim>\<open>tagName\<close> is an accessor
    without a setter in a browser, where the assignment raises \<^verbatim>\<open>TypeError\<close>; a host
    whose elements accept or ignore the assignment has \<open>False\<close> here;
  \<^item> \<open>toLowerCase\<close>: \<^verbatim>\<open>String.prototype.toLowerCase\<close>, a table of Unicode;
  \<^item> \<open>builtin_text\<close>: the string a built-in member of \<^verbatim>\<open>Object.prototype\<close> converts to.
\<close>

record host =
  lucide :: "(dom \<Rightarrow> dom) option"
  tagName_assignment_raises :: bool
  toLowerCase :: "jsstring \<Rightarrow> jsstring"
  builtin_text :: "jsstring \<Rightarrow> jsstring"

fun to_string :: "host \<Rightarrow> jsval \<Rightarrow> jsstring" where
  "to_string h (Str s) = s"
| "to_string h Undefined = js ''undefined''"
| "to_string h (Builtin n) = builtin_text h n"

section \<open>IconManager\<close>

subsection \<open>The lookup table\<close>

definition iconMap :: "(jsstring \<times> jsstring) list" where
  "iconMap =
     [(js ''home'', js ''home''),
      (js ''teacher'', js ''graduation-cap''),
      (js ''student'', js ''user''),
      (js ''analytics'', js ''bar-chart-3''),
      (js ''bot'', js ''bot''),
      (js ''reports'', js ''file-text''),
      (js ''documents'', js ''folder''),
      (js ''menu'', js ''menu''),
      (js ''send'', js ''send''),
      (js ''upload'', js ''upload''),
      (js ''download'', js ''download''),
      (js ''delete'', js ''trash-2''),
      (js ''edit'', js ''edit-2''),
      (js ''search'', js ''search''),
      (js ''settings'', js ''settings''),
      (js ''close'', js ''x''),
      (js ''check'', js ''check''),
      (js ''plus'', js ''plus''),
      (js ''minus'', js ''minus''),
      (js ''chart'', js ''bar-chart-3''),
      (js ''pie-chart'', js ''pie-chart''),
      (js ''trending-up'', js ''trending-up''),
      (js ''trending-down'', js ''trending-down''),
      (js ''users'', js ''users''),
      (js ''clock'', js ''clock''),
      (js ''calendar'', js ''calendar''),
      (js ''success'', js ''check-circle''),
      (js ''error'', js ''x-circle''),
      (js ''warning'', js ''alert-triangle''),
      (js ''info'', js ''info'')]"

text \<open>
  \<^verbatim>\<open>this.iconMap[name]\<close> reads a property of a plain object: an own property first, then
  what the object inherits from \<^verbatim>\<open>Object.prototype\<close>.
\<close>

definition object_prototype_members :: "jsstring list" where
  "object_prototype_members =
     [js ''constructor'', js ''__proto__'', js ''hasOwnProperty'', js ''isPrototypeOf'',
      js ''propertyIsEnumerable'', js ''toLocaleString'', js ''toString'', js ''valueOf'',
      js ''__defineGetter__'', js ''__defineSetter__'', js ''__lookupGetter__'',
      js ''__lookupSetter__'']"

definition iconMap_get :: "jsstring \<Rightarrow> jsval" where
  "iconMap_get k =
     (case map_of iconMap k of
        Some v \<Rightarrow> Str v
      | None \<Rightarrow> if k \<in> set object_prototype_members then Builtin k else Undefined)"

definition data_lucide :: jsstring where
  "data_lucide = js ''data-lucide''"

subsection \<open>applyNavigationIcons\<close>

text \<open>
  The cascade of lines 75 to 91. \<open>href\<close> is \<^verbatim>\<open>null\<close> when the item has no such attribute;
  \<^verbatim>\<open>href.includes\<close> on \<^verbatim>\<open>null\<close> raises.
\<close>

definition nav_icon_name :: "jsstring option \<Rightarrow> jsstring \<Rightarrow> js_error + jsval" where
  "nav_icon_name href text =
     (if href = Some (js ''/'') \<or> href = Some (js ''/index'') then Inr (iconMap_get (js ''home''))
      else (case href of
              None \<Rightarrow> Inl TypeError
            | Some hr \<Rightarrow>
                if hr = js ''/teacher'' \<or> includes_js hr (js ''teacher'')
                then Inr (iconMap_get (js ''teacher''))
                else if hr = js ''/student'' \<or> includes_js hr (js ''student'')
                then Inr (iconMap_get (js ''student''))
                else if hr = js ''/analytics'' \<or> includes_js hr (js ''analytics'')
                then Inr (iconMap_get (js ''analytics''))
                else if includes_js text (js ''Tutor IA'')
                then Inr (iconMap_get (js ''bot''))
                else if includes_js text (js ''Relat'' @ [243] @ js ''rio'')
                then Inr (iconMap_get (js ''reports''))
                else if includes_js text (js ''Documento'')
                then Inr (iconMap_get (js ''documents''))
                else Inr (Str [])))"

definition nav_item_callback :: "host \<Rightarrow> nid \<Rightarrow> dom \<Rightarrow> outcome" where
  "nav_item_callback h item d =
     (let href = getAttribute item (js ''href'') d;
          iconElement = querySelector (has_class (js ''nav-item-icon'')) item d
      in case iconElement of
           None \<Rightarrow> (None, d)
         | Some ic \<Rightarrow>
             if hasAttribute ic data_lucide d then (None, d)
             else (case nav_icon_name href (textContent item d) of
                     Inl e \<Rightarrow> (Some e, d)
                   | Inr iconName \<Rightarrow>
                       if truthy iconName
                       then (if tagName_assignment_raises h then Some TypeError else None,
                             setAttribute ic data_lucide (to_string h iconName) d)
                       else (None, d)))"

definition applyNavigationIcons :: "host \<Rightarrow> dom \<Rightarrow> outcome" where
  "applyNavigationIcons h d =
     forEach (nav_item_callback h) (querySelectorAll (has_class (js ''nav-item'')) d) d"

subsection \<open>applyInterfaceIcons\<close>

definition menu_button_callback :: "nid \<Rightarrow> dom \<Rightarrow> dom" where
  "menu_button_callback btn d =
     (if querySelector (has_attr data_lucide) btn d = None
      then set_innerHTML btn (icon_markup (js ''menu'')) d else d)"

definition send_button_callback :: "nid \<Rightarrow> dom \<Rightarrow> outcome" where
  "send_button_callback btn d =
     (case querySelector (sel_and (tag_is (js ''svg'')) (has_class (js ''send-icon''))) btn d of
        None \<Rightarrow> (None, d)
      | Some svg \<Rightarrow> set_outerHTML svg (icon_markup (js ''send'')) d)"

definition file_icon_callback :: "host \<Rightarrow> nid \<Rightarrow> dom \<Rightarrow> dom" where
  "file_icon_callback h icon d =
     (if \<not> hasAttribute icon data_lucide d \<and> trim (textContent icon d) = []
      then (case closest (sel_or (has_class (js ''document-item'')) (has_class (js ''metric-card'')))
                   icon d of
              None \<Rightarrow> d
            | Some parent \<Rightarrow>
                (let text = toLowerCase h (textContent parent d)
                 in if includes_js text (js ''professor'') \<or> includes_js text (js ''teacher'')
                    then setAttribute icon data_lucide (to_string h (iconMap_get (js ''teacher''))) d
                    else if includes_js text (js ''estudante'') \<or> includes_js text (js ''student'')
                    then setAttribute icon data_lucide (to_string h (iconMap_get (js ''student''))) d
                    else if includes_js text (js ''analytics'')
                          \<or> includes_js text (js ''m'' @ [233] @ js ''tricas'')
                    then setAttribute icon data_lucide (to_string h (iconMap_get (js ''analytics''))) d
                    else setAttribute icon data_lucide (to_string h (iconMap_get (js ''documents''))) d))
      else d)"

definition metric_icon_callback :: "host \<Rightarrow> nid \<Rightarrow> dom \<Rightarrow> dom" where
  "metric_icon_callback h icon d =
     (if \<not> hasAttribute icon data_lucide d \<and> trim (textContent icon d) = []
      then (case closest (has_class (js ''metric-card'')) icon d of
              None \<Rightarrow> d
            | Some parent \<Rightarrow>
                (let text = toLowerCase h (textContent parent d)
                 in if includes_js text (js ''pergunta'')
                       \<or> includes_js text (js ''quest'' @ [227] @ js ''o'')
                    then setAttribute icon data_lucide (js ''message-circle'') d
                    else if includes_js text (js ''estudante'')
                          \<or> includes_js text (js ''usu'' @ [225] @ js ''rio'')
                    then setAttribute icon data_lucide (js ''users'') d
                    else if includes_js text (js ''disciplina'')
                          \<or> includes_js text (js ''mat'' @ [233] @ js ''ria'')
                    then setAttribute icon data_lucide (js ''book'') d
                    else if includes_js text (js ''tempo'') \<or> includes_js text (js ''resposta'')
                    then setAttribute icon data_lucide (js ''clock'') d
                    else setAttribute icon data_lucide (js ''bar-chart-3'') d))
      else d)"

definition menu_buttons_loop :: "dom \<Rightarrow> dom" where
  "menu_buttons_loop d =
     fold menu_button_callback (querySelectorAll (has_class (js ''mobile-menu-toggle'')) d) d"

definition send_buttons_loop :: "dom \<Rightarrow> outcome" where
  "send_buttons_loop d =
     forEach send_button_callback
       (querySelectorAll (sel_or (has_id (js ''sendButton'')) (has_class (js ''send-button''))) d) d"

definition file_icons_loop :: "host \<Rightarrow> dom \<Rightarrow> dom" where
  "file_icons_loop h d =
     fold (file_icon_callback h) (querySelectorAll (has_class (js ''file-icon'')) d) d"

definition metric_icons_loop :: "host \<Rightarrow> dom \<Rightarrow> dom" where
  "metric_icons_loop h d =
     fold (metric_icon_callback h) (querySelectorAll (has_class (js ''metric-icon'')) d) d"

definition applyInterfaceIcons :: "host \<Rightarrow> dom \<Rightarrow> outcome" where
  "applyInterfaceIcons h d =
     (case send_buttons_loop (menu_buttons_loop d) of
        (Some e, d') \<Rightarrow> (Some e, d')
      | (None, d') \<Rightarrow> (None, metric_icons_loop h (file_icons_loop h d')))"

subsection \<open>applyIcons, addIcon, init\<close>

definition createIcons_if_defined :: "host \<Rightarrow> dom \<Rightarrow> dom" where
  "createIcons_if_defined h d = (case lucide h of None \<Rightarrow> d | Some createIcons \<Rightarrow> createIcons d)"

definition applyIcons :: "host \<Rightarrow> dom \<Rightarrow> outcome" where
  "applyIcons h d =
     (case applyNavigationIcons h d of
        (Some e, d1) \<Rightarrow> (Some e, d1)
      | (None, d1) \<Rightarrow>
          (case applyInterfaceIcons h d1 of
             (Some e, d2) \<Rightarrow> (Some e, d2)
           | (None, d2) \<Rightarrow> (None, createIcons_if_defined h d2)))"

definition addIcon :: "host \<Rightarrow> nid \<Rightarrow> jsstring \<Rightarrow> dom \<Rightarrow> dom" where
  "addIcon h element iconName d =
     (if truthy (iconMap_get iconName)
      then createIcons_if_defined h
             (setAttribute element data_lucide (to_string h (iconMap_get iconName)) d)
      else d)"

text \<open>
  The page around the document: its readiness and the listeners registered on it. The one
  listener this file registers is the closure that calls \<^verbatim>\<open>manager.applyIcons()\<close>.
\<close>

datatype ready_state = Loading | Interactive | Complete

datatype listener = Call_applyIcons

record page =
  tree :: dom
  readyState :: ready_state
  listeners :: "(jsstring \<times> listener) list"

definition init :: "host \<Rightarrow> page \<Rightarrow> js_error option \<times> page" where
  "init h p =
     (if readyState p = Loading
      then (None, p\<lparr>listeners := listeners p @ [(js ''DOMContentLoaded'', Call_applyIcons)]\<rparr>)
      else (case applyIcons h (tree p) of (e, d) \<Rightarrow> (e, p\<lparr>tree := d\<rparr>)))"

text \<open>
  The browser fires \<^verbatim>\<open>DOMContentLoaded\<close> once, when the document has been parsed: the
  readiness becomes interactive and the listeners for the event run in the order of their
  registration. An exception of a listener is reported and does not stop the others.
\<close>

fun run_listener :: "host \<Rightarrow> listener \<Rightarrow> dom \<Rightarrow> dom" where
  "run_listener h Call_applyIcons d = snd (applyIcons h d)"

definition fire_DOMContentLoaded :: "host \<Rightarrow> page \<Rightarrow> page" where
  "fire_DOMContentLoaded h p =
     p\<lparr>readyState := Interactive,
       tree := fold (run_listener h)
                 (map snd (filter (\<lambda>l. fst l = js ''DOMContentLoaded'') (listeners p))) (tree p)\<rparr>"

section \<open>Notions used in the statements\<close>

text \<open>A selector is stable under an attribute when writing that attribute cannot change it.\<close>

definition stable :: "selector \<Rightarrow> jsstring \<Rightarrow> bool" where
  "stable sel k \<longleftrightarrow> (\<forall>tg as v. sel tg (AList.update k v as) = sel tg as)"

text \<open>The document with one attribute of one element left out: what a frame condition compares.\<close>

fun remove_attr :: "nid \<Rightarrow> jsstring \<Rightarrow> node \<Rightarrow> node"
  and remove_attr_forest :: "nid \<Rightarrow> jsstring \<Rightarrow> node list \<Rightarrow> node list" where
  "remove_attr i k (Text t) = Text t"
| "remove_attr i k (Element j tg as cs) =
     Element j tg (if i = j then AList.delete k as else as) (remove_attr_forest i k cs)"
| "remove_attr_forest i k [] = []"
| "remove_attr_forest i k (c # cs) = remove_attr i k c # remove_attr_forest i k cs"

definition without_attribute :: "nid \<Rightarrow> jsstring \<Rightarrow> dom \<Rightarrow> dom" where
  "without_attribute i k d =
     d\<lparr>document := remove_attr_forest i k (document d),
       detached := remove_attr_forest i k (detached d)\<rparr>"

text \<open>
  The rules of the navigation pass as the specification words them: an ordered list of
  a predicate on the link target and the text, and the category it selects; the first
  rule that matches wins.
\<close>

definition nav_rules :: "((jsstring \<Rightarrow> jsstring \<Rightarrow> bool) \<times> jsstring) list" where
  "nav_rules =
     [(\<lambda>hr text. hr = js ''/'' \<or> hr = js ''/index'', js ''home''),
      (\<lambda>hr text. hr = js ''/teacher'' \<or> includes_js hr (js ''teacher''), js ''teacher''),
      (\<lambda>hr text. hr = js ''/student'' \<or> includes_js hr (js ''student''), js ''student''),
      (\<lambda>hr text. hr = js ''/analytics'' \<or> includes_js hr (js ''analytics''), js ''analytics''),
      (\<lambda>hr text. includes_js text (js ''Tutor IA''), js ''bot''),
      (\<lambda>hr text. includes_js text (js ''Relat'' @ [243] @ js ''rio''), js ''reports''),
      (\<lambda>hr text. includes_js text (js ''Documento''), js ''documents'')]"

fun first_match :: "((jsstring \<Rightarrow> jsstring \<Rightarrow> bool) \<times> jsstring) list \<Rightarrow> jsstring \<Rightarrow> jsstring
    \<Rightarrow> jsstring option" where
  "first_match [] hr text = None"
| "first_match ((p, category) # rules) hr text =
     (if p hr text then Some category else first_match rules hr text)"

text \<open>
  \<open>labels_added d d'\<close>: the document \<open>d'\<close> comes from \<open>d\<close> by giving a \<^verbatim>\<open>data-lucide\<close>
  attribute to elements that had none, one after the other.
\<close>

inductive labels_added :: "dom \<Rightarrow> dom \<Rightarrow> bool" where
  same: "labels_added d d"
| label: "labels_added d d' \<Longrightarrow> \<not> hasAttribute j data_lucide d' \<Longrightarrow>
          labels_added d (setAttribute j data_lucide v d')"

section \<open>Example hosts and documents\<close>

text \<open>
  A browser without the rendering library: the assignment to \<^verbatim>\<open>tagName\<close> raises. Its
  lower-casing is that of the Latin-1 letters, which is \<^verbatim>\<open>toLowerCase\<close> on the strings of
  the examples.
\<close>

definition lower_unit :: "nat \<Rightarrow> nat" where
  "lower_unit c =
     (if (65 \<le> c \<and> c \<le> 90) \<or> (192 \<le> c \<and> c \<le> 222 \<and> c \<noteq> 215) then c + 32 else c)"

definition native_text :: "jsstring \<Rightarrow> jsstring" where
  "native_text n =
     (if n = js ''constructor'' then js ''function Object() { [native code] }''
      else if n = js ''__proto__'' then js ''[object Object]''
      else js ''function '' @ n @ js ''() { [native code] }'')"

definition strict_host :: host where
  "strict_host =
     \<lparr>lucide = None, tagName_assignment_raises = True, toLowerCase = map lower_unit,
      builtin_text = native_text\<rparr>"

text \<open>\<^verbatim>\<open><span></span>\<close>\<close>

definition span_doc :: dom where
  "span_doc = \<lparr>document = [Element 1 (js ''span'') [] []], detached = [], next_id = 2\<rparr>"

text \<open>\<^verbatim>\<open><i data-lucide="home" title="Start">x</i>\<close>\<close>

definition labelled_doc :: dom where
  "labelled_doc =
     \<lparr>document = [Element 1 (js ''i'') [(js ''data-lucide'', js ''home''), (js ''title'', js ''Start'')]
                    [Text (js ''x'')]],
      detached = [], next_id = 2\<rparr>"

text \<open>\<^verbatim>\<open><a class="nav-item"><span class="nav-item-icon"></span></a>\<close>\<close>

definition href_less_doc :: dom where
  "href_less_doc =
     \<lparr>document = [Element 1 (js ''a'') [(js ''class'', js ''nav-item'')]
                    [Element 2 (js ''span'') [(js ''class'', js ''nav-item-icon'')] []]],
      detached = [], next_id = 3\<rparr>"

text \<open>\<^verbatim>\<open><button class="nav-item"><i class="nav-item-icon"></i>Tutor IA</button>\<close>\<close>

definition tutor_button_doc :: dom where
  "tutor_button_doc =
     \<lparr>document = [Element 1 (js ''button'') [(js ''class'', js ''nav-item'')]
                    [Element 2 (js ''i'') [(js ''class'', js ''nav-item-icon'')] [],
                     Text (js ''Tutor IA'')]],
      detached = [], next_id = 3\<rparr>"

text \<open>\<^verbatim>\<open><a class="nav-item" href="/teacher"><span class="nav-item-icon"></span>Professores</a>\<close>\<close>

definition teacher_nav_doc :: dom where
  "teacher_nav_doc =
     \<lparr>document = [Element 1 (js ''a'') [(js ''class'', js ''nav-item''), (js ''href'', js ''/teacher'')]
                    [Element 2 (js ''span'') [(js ''class'', js ''nav-item-icon'')] [],
                     Text (js ''Professores'')]],
      detached = [], next_id = 3\<rparr>"

text \<open>
  A navigation item inside a navigation item, with one icon element for both:
  \<^verbatim>\<open><div class="nav-item" href="/student"><a class="nav-item" href="/teacher">\<close>
  \<^verbatim>\<open><span class="nav-item-icon"></span></a></div>\<close>
\<close>

definition nested_nav_doc :: dom where
  "nested_nav_doc =
     \<lparr>document = [Element 1 (js ''div'') [(js ''class'', js ''nav-item''), (js ''href'', js ''/student'')]
                    [Element 2 (js ''a'') [(js ''class'', js ''nav-item''), (js ''href'', js ''/teacher'')]
                       [Element 3 (js ''span'') [(js ''class'', js ''nav-item-icon'')] []]]],
      detached = [], next_id = 4\<rparr>"

text \<open>
  What the file-icon inference chooses for the lower-cased text of the container, with the
  identifiers written out.
\<close>

definition file_icon_choice :: "jsstring \<Rightarrow> jsstring" where
  "file_icon_choice text =
     (if includes_js text (js ''professor'') \<or> includes_js text (js ''teacher'')
      then js ''graduation-cap''
      else if includes_js text (js ''estudante'') \<or> includes_js text (js ''student'')
      then js ''user''
      else if includes_js text (js ''analytics'') \<or> includes_js text (js ''m'' @ [233] @ js ''tricas'')
      then js ''bar-chart-3''
      else js ''folder'')"

text \<open>
  \<^verbatim>\<open><div class="document-item"><span class="file-icon"></span>Lista de Estudantes</div>\<close>
  \<^verbatim>\<open><div class="document-item"><span class="file-icon"> </span>Notas.pdf</div>\<close>
\<close>

definition file_doc :: dom where
  "file_doc =
     \<lparr>document =
        [Element 5 (js ''div'') [(js ''class'', js ''document-item'')]
           [Element 6 (js ''span'') [(js ''class'', js ''file-icon'')] [],
            Text (js ''Lista de Estudantes'')],
         Element 7 (js ''div'') [(js ''class'', js ''document-item'')]
           [Element 8 (js ''span'') [(js ''class'', js ''file-icon'')] [Text (js '' '')],
            Text (js ''Notas.pdf'')]],
      detached = [], next_id = 9\<rparr>"

text \<open>The attributes of every element of a forest, by identity, in tree order.\<close>

fun attr_table :: "node \<Rightarrow> (nid \<times> attrs) list"
  and attr_table_forest :: "node list \<Rightarrow> (nid \<times> attrs) list" where
  "attr_table (Text t) = []"
| "attr_table (Element i tg as cs) = (i, as) # attr_table_forest cs"
| "attr_table_forest [] = []"
| "attr_table_forest (c # cs) = attr_table c @ attr_table_forest cs"

text \<open>
  A well-formed store: no two elements share an identity, and every identity in use lies
  below the next one to be given out. A document held by a browser is of this kind.
\<close>

definition well_formed :: "dom \<Rightarrow> bool" where
  "well_formed d \<longleftrightarrow>
     distinct (forest_ids (all_nodes d)) \<and> (\<forall>i \<in> set (forest_ids (all_nodes d)). i < next_id d)"

text \<open>
  \<open>icons_from S d d'\<close>: every icon attribute of \<open>d\<close> is in \<open>d'\<close>, on the same element with
  the same value, and every other icon attribute of \<open>d'\<close> has a value in \<open>S\<close>.
\<close>

definition icons_from :: "jsstring set \<Rightarrow> dom \<Rightarrow> dom \<Rightarrow> bool" where
  "icons_from S d d' \<longleftrightarrow>
     (\<forall>e v. getAttribute e data_lucide d = Some v \<longrightarrow> getAttribute e data_lucide d' = Some v)
     \<and> (\<forall>e v. getAttribute e data_lucide d' = Some v \<longrightarrow>
            getAttribute e data_lucide d = Some v \<or> v \<in> S)"

text \<open>
  \<^verbatim>\<open><a class="nav-item" href="/teacher"><span class="nav-item-icon file-icon"\<close>
  \<^verbatim>\<open>data-lucide="star"></span></a>\<close>
\<close>

definition prelabelled_doc :: dom where
  "prelabelled_doc =
     \<lparr>document =
        [Element 5 (js ''a'') [(js ''class'', js ''nav-item document-item''), (js ''href'', js ''/teacher'')]
           [Element 6 (js ''span'')
              [(js ''class'', js ''nav-item-icon file-icon''), (js ''data-lucide'', js ''star'')] []]],
      detached = [], next_id = 7\<rparr>"

text \<open>\<^verbatim>\<open><div class="metric-card"><span class="metric-icon"></span>Perguntas</div>\<close>\<close>

definition metric_doc :: dom where
  "metric_doc =
     \<lparr>document =
        [Element 5 (js ''div'') [(js ''class'', js ''metric-card'')]
           [Element 6 (js ''span'') [(js ''class'', js ''metric-icon'')] [],
            Text (js ''Perguntas'')]],
      detached = [], next_id = 7\<rparr>"

text \<open>The identifiers the lookup table holds.\<close>

definition table_identifiers :: "jsstring set" where
  "table_identifiers = snd ` set iconMap"

text \<open>
  A callback of a loop is quiet on an element when its guards keep it from changing the
  document.
\<close>

definition nav_quiet :: "nid \<Rightarrow> dom \<Rightarrow> bool" where
  "nav_quiet item d \<longleftrightarrow>
     (case querySelector (has_class (js ''nav-item-icon'')) item d of
        None \<Rightarrow> True
      | Some ic \<Rightarrow>
          hasAttribute ic data_lucide d
          \<or> (case nav_icon_name (getAttribute item (js ''href'') d) (textContent item d) of
                Inl e \<Rightarrow> False | Inr n \<Rightarrow> \<not> truthy n))"

definition file_quiet :: "nid \<Rightarrow> dom \<Rightarrow> bool" where
  "file_quiet icon d \<longleftrightarrow>
     hasAttribute icon data_lucide d \<or> trim (textContent icon d) \<noteq> []
     \<or> closest (sel_or (has_class (js ''document-item'')) (has_class (js ''metric-card''))) icon d
         = None"

definition metric_quiet :: "nid \<Rightarrow> dom \<Rightarrow> bool" where
  "metric_quiet icon d \<longleftrightarrow>
     hasAttribute icon data_lucide d \<or> trim (textContent icon d) \<noteq> []
     \<or> closest (has_class (js ''metric-card'')) icon d = None"

text \<open>What the metric-icon inference chooses for the lower-cased text of the card.\<close>

definition metric_icon_choice :: "jsstring \<Rightarrow> jsstring" where
  "metric_icon_choice text =
     (if includes_js text (js ''pergunta'') \<or> includes_js text (js ''quest'' @ [227] @ js ''o'')
      then js ''message-circle''
      else if includes_js text (js ''estudante'') \<or> includes_js text (js ''usu'' @ [225] @ js ''rio'')
      then js ''users''
      else if includes_js text (js ''disciplina'') \<or> includes_js text (js ''mat'' @ [233] @ js ''ria'')
      then js ''book''
      else if includes_js text (js ''tempo'') \<or> includes_js text (js ''resposta'')
      then js ''clock''
      else js ''bar-chart-3'')"

text \<open>
  \<^verbatim>\<open><button class="send-button"><svg class="send-icon"></svg><svg class="send-icon"></svg>\<close>
  \<^verbatim>\<open></button>\<close>
\<close>

definition two_svg_doc :: dom where
  "two_svg_doc =
     \<lparr>document =
        [Element 5 (js ''button'') [(js ''class'', js ''send-button'')]
           [Element 6 (js ''svg'') [(js ''class'', js ''send-icon'')] [],
            Element 7 (js ''svg'') [(js ''class'', js ''send-icon'')] []]],
      detached = [], next_id = 8\<rparr>"

text \<open>
  \<^verbatim>\<open><a class="nav-item" href="#"><span class="nav-item-icon"></span>Tutor \<close>
  \<^verbatim>\<open><button class="mobile-menu-toggle">x</button>IA</a>\<close>
\<close>

definition toggle_in_nav_doc :: dom where
  "toggle_in_nav_doc =
     \<lparr>document =
        [Element 5 (js ''a'') [(js ''class'', js ''nav-item''), (js ''href'', js ''#'')]
           [Element 6 (js ''span'') [(js ''class'', js ''nav-item-icon'')] [],
            Text (js ''Tutor ''),
            Element 7 (js ''button'') [(js ''class'', js ''mobile-menu-toggle'')] [Text (js ''x'')],
            Text (js ''IA'')]],
      detached = [], next_id = 8\<rparr>"

text \<open>\<open>two_svg_doc\<close> after one run and after two runs of \<open>applyIcons\<close>.\<close>

definition two_svg_once :: dom where
  "two_svg_once =
     \<lparr>document =
        [Element 5 (js ''button'') [(js ''class'', js ''send-button'')]
           [Element 8 (js ''i'') [(js ''data-lucide'', js ''send'')] [],
            Element 7 (js ''svg'') [(js ''class'', js ''send-icon'')] []]],
      detached = [Element 6 (js ''svg'') [(js ''class'', js ''send-icon'')] []], next_id = 9\<rparr>"

definition two_svg_twice :: dom where
  "two_svg_twice =
     \<lparr>document =
        [Element 5 (js ''button'') [(js ''class'', js ''send-button'')]
           [Element 8 (js ''i'') [(js ''data-lucide'', js ''send'')] [],
            Element 9 (js ''i'') [(js ''data-lucide'', js ''send'')] []]],
      detached = [Element 6 (js ''svg'') [(js ''class'', js ''send-icon'')] [],
                  Element 7 (js ''svg'') [(js ''class'', js ''send-icon'')] []],
      next_id = 10\<rparr>"

text \<open>
  \<^verbatim>\<open><a class="nav-item" href="/teacher"><span class="nav-item-icon"></span></a>\<close>
  \<^verbatim>\<open><a class="nav-item" href="/student"><span class="nav-item-icon"></span></a>\<close>
\<close>

definition two_links_doc :: dom where
  "two_links_doc =
     \<lparr>document =
        [Element 5 (js ''a'') [(js ''class'', js ''nav-item''), (js ''href'', js ''/teacher'')]
           [Element 6 (js ''span'') [(js ''class'', js ''nav-item-icon'')] []],
         Element 7 (js ''a'') [(js ''class'', js ''nav-item''), (js ''href'', js ''/student'')]
           [Element 8 (js ''span'') [(js ''class'', js ''nav-item-icon'')] []]],
      detached = [], next_id = 9\<rparr>"

text \<open>
  Pages around the example documents: one that is loaded and one that is still loading,
  both with \<open>metric_doc\<close>, and one that is still loading with \<open>two_svg_doc\<close>.
\<close>

definition ready_metric_page :: page where
  "ready_metric_page = \<lparr>tree = metric_doc, readyState = Complete, listeners = []\<rparr>"

definition loading_metric_page :: page where
  "loading_metric_page = \<lparr>tree = metric_doc, readyState = Loading, listeners = []\<rparr>"

definition loading_two_svg_page :: page where
  "loading_two_svg_page = \<lparr>tree = two_svg_doc, readyState = Loading, listeners = []\<rparr>"

text \<open>The elements of a forest as subtrees, in tree order.\<close>

fun subtrees :: "node \<Rightarrow> node list" and subtrees_forest :: "node list \<Rightarrow> node list" where
  "subtrees (Text t) = []"
| "subtrees (Element i tg as cs) = Element i tg as cs # subtrees_forest cs"
| "subtrees_forest [] = []"
| "subtrees_forest (c # cs) = subtrees c @ subtrees_forest cs"

text \<open>
  \<^verbatim>\<open><div class="document-item"><button class="mobile-menu-toggle">Estudante</button>\<close>
  \<^verbatim>\<open><span class="file-icon"></span></div>\<close>
\<close>

definition toggle_file_doc :: dom where
  "toggle_file_doc =
     \<lparr>document =
        [Element 5 (js ''div'') [(js ''class'', js ''document-item'')]
           [Element 6 (js ''button'') [(js ''class'', js ''mobile-menu-toggle'')]
              [Text (js ''Estudante'')],
            Element 7 (js ''span'') [(js ''class'', js ''file-icon'')] []]],
      detached = [], next_id = 8\<rparr>"

text \<open>\<open>toggle_file_doc\<close> as the rewriting of the menu buttons leaves it.\<close>

definition toggle_file_rewritten :: dom where
  "toggle_file_rewritten =
     \<lparr>document =
        [Element 5 (js ''div'') [(js ''class'', js ''document-item'')]
           [Element 6 (js ''button'') [(js ''class'', js ''mobile-menu-toggle'')]
              [Element 8 (js ''i'') [(js ''data-lucide'', js ''menu'')] []],
            Element 7 (js ''span'') [(js ''class'', js ''file-icon'')] []]],
      detached = [Text (js ''Estudante'')], next_id = 9\<rparr>"

text \<open>
  \<^verbatim>\<open><div class="document-item">Estudante<span class="file-icon document-item"></span></div>\<close>
\<close>

definition own_container_doc :: dom where
  "own_container_doc =
     \<lparr>document =
        [Element 5 (js ''div'') [(js ''class'', js ''document-item'')]
           [Text (js ''Estudante''),
            Element 6 (js ''span'') [(js ''class'', js ''file-icon document-item'')] []]],
      detached = [], next_id = 7\<rparr>"

text \<open>
  A selector is plain when it does not match the elements that the script writes as markup,
  \<^verbatim>\<open><i data-lucide="..."></i>\<close>.
\<close>

definition plain :: "selector \<Rightarrow> bool" where
  "plain sel \<longleftrightarrow> (\<forall>name. \<not> sel (js ''i'') [(js ''data-lucide'', name)])"

text \<open>
  \<open>kept d d'\<close>: every element of \<open>d\<close> is an element of \<open>d'\<close> with the same attributes.
\<close>

definition kept :: "dom \<Rightarrow> dom \<Rightarrow> bool" where
  "kept d d' \<longleftrightarrow>
     (\<forall>x. lookup x d \<noteq> None \<longrightarrow>
        lookup x d' \<noteq> None \<and> (\<forall>k. getAttribute x k d' = getAttribute x k d))"

text \<open>An element is iconed when it has a descendant with a \<^verbatim>\<open>data-lucide\<close> attribute.\<close>

definition iconed :: "nid \<Rightarrow> dom \<Rightarrow> bool" where
  "iconed b d \<longleftrightarrow> querySelector (has_attr data_lucide) b d \<noteq> None"

text \<open>
  A page with a navigation item that no rule matches, a menu button, a send button with
  one icon and a metric card:
  \<^verbatim>\<open><a class="nav-item" href="/about"><span class="nav-item-icon"></span>Sobre</a>\<close>
  \<^verbatim>\<open><button class="mobile-menu-toggle">Menu</button>\<close>
  \<^verbatim>\<open><button id="sendButton"><svg class="send-icon"></svg></button>\<close>
  \<^verbatim>\<open><div class="metric-card"><span class="metric-icon"></span>Tempo de resposta</div>\<close>
\<close>

definition about_doc :: dom where
  "about_doc =
     \<lparr>document =
        [Element 5 (js ''a'') [(js ''class'', js ''nav-item''), (js ''href'', js ''/about'')]
           [Element 6 (js ''span'') [(js ''class'', js ''nav-item-icon'')] [],
            Text (js ''Sobre'')],
         Element 7 (js ''button'') [(js ''class'', js ''mobile-menu-toggle'')] [Text (js ''Menu'')],
         Element 8 (js ''button'') [(js ''id'', js ''sendButton'')]
           [Element 9 (js ''svg'') [(js ''class'', js ''send-icon'')] []],
         Element 10 (js ''div'') [(js ''class'', js ''metric-card'')]
           [Element 11 (js ''span'') [(js ''class'', js ''metric-icon'')] [],
            Text (js ''Tempo de resposta'')]],
      detached = [], next_id = 12\<rparr>"

text \<open>\<open>about_doc\<close> after a run of \<open>applyIcons\<close>.\<close>

definition about_done :: dom where
  "about_done =
     \<lparr>document =
        [Element 5 (js ''a'') [(js ''class'', js ''nav-item''), (js ''href'', js ''/about'')]
           [Element 6 (js ''span'') [(js ''class'', js ''nav-item-icon'')] [],
            Text (js ''Sobre'')],
         Element 7 (js ''button'') [(js ''class'', js ''mobile-menu-toggle'')]
           [Element 12 (js ''i'') [(js ''data-lucide'', js ''menu'')] []],
         Element 8 (js ''button'') [(js ''id'', js ''sendButton'')]
           [Element 13 (js ''i'') [(js ''data-lucide'', js ''send'')] []],
         Element 10 (js ''div'') [(js ''class'', js ''metric-card'')]
           [Element 11 (js ''span'') [(js ''class'', js ''metric-icon''), (js ''data-lucide'', js ''clock'')] [],
            Text (js ''Tempo de resposta'')]],
      detached = [Text (js ''Menu''), Element 9 (js ''svg'') [(js ''class'', js ''send-icon'')] []],
      next_id = 14\<rparr>"

text \<open>\<open>toggle_in_nav_doc\<close> after a run of \<open>applyIcons\<close>.\<close>

definition toggle_in_nav_once :: dom where
  "toggle_in_nav_once =
     \<lparr>document =
        [Element 5 (js ''a'') [(js ''class'', js ''nav-item''), (js ''href'', js ''#'')]
           [Element 6 (js ''span'') [(js ''class'', js ''nav-item-icon'')] [],
            Text (js ''Tutor ''),
            Element 7 (js ''button'') [(js ''class'', js ''mobile-menu-toggle'')]
              [Element 8 (js ''i'') [(js ''data-lucide'', js ''menu'')] []],
            Text (js ''IA'')]],
      detached = [Text (js ''x'')], next_id = 9\<rparr>"

section \<open>Facts about the tree\<close>

lemma js_eq_iff [simp]: "js a = js b \<longleftrightarrow> a = b"
  by (simp add: js_def inj_map_eq_map inj_on_def)

lemma chain_nonempty_iff:
  "chain i n \<noteq> [] \<longleftrightarrow> i \<in> set (node_ids n)"
  "chain_forest i ns \<noteq> [] \<longleftrightarrow> i \<in> set (forest_ids ns)"
  by (induction n and ns rule: node_ids_forest_ids.induct) (auto split: list.splits)

lemma chain_head_id:
  "chain i n = x # xs \<Longrightarrow> node_id x = Some i"
  "chain_forest i ns = x # xs \<Longrightarrow> node_id x = Some i"
  by (induction n and ns arbitrary: x xs and x xs rule: node_ids_forest_ids.induct)
     (auto split: list.splits if_splits simp: Cons_eq_append_conv)

lemma lookup_node_id: "lookup i d = Some n \<Longrightarrow> node_id n = Some i"
  by (auto simp: lookup_def split: list.splits dest: chain_head_id)

lemma set_attr_forest_append:
  "set_attr_forest j k v (xs @ ys) = set_attr_forest j k v xs @ set_attr_forest j k v ys"
  by (induction xs) auto

lemma chain_set_attr:
  "chain i (set_attr j k v n) = map (set_attr j k v) (chain i n)"
  "chain_forest i (set_attr_forest j k v ns) = map (set_attr j k v) (chain_forest i ns)"
  by (induction n and ns rule: node_ids_forest_ids.induct) (auto split: list.splits)

lemma text_of_set_attr:
  "text_of (set_attr j k v n) = text_of n"
  "text_of_forest (set_attr_forest j k v ns) = text_of_forest ns"
  by (induction n and ns rule: node_ids_forest_ids.induct) auto

lemma node_id_set_attr [simp]: "node_id (set_attr j k v n) = node_id n"
  by (cases n) auto

lemma attrs_of_set_attr:
  "attrs_of (set_attr j k v n) =
     (if node_id n = Some j then AList.update k v (attrs_of n) else attrs_of n)"
  by (cases n) auto

lemma children_of_set_attr:
  "children_of (set_attr j k v n) = set_attr_forest j k v (children_of n)"
  by (cases n) auto

lemma lookup_setAttribute:
  "lookup i (setAttribute j k v d) = map_option (set_attr j k v) (lookup i d)"
  by (simp add: lookup_def setAttribute_def all_nodes_def set_attr_forest_append[symmetric]
      chain_set_attr split: list.splits)

lemma textContent_setAttribute [simp]: "textContent i (setAttribute j k v d) = textContent i d"
  by (simp add: textContent_def lookup_setAttribute text_of_set_attr split: option.splits)

lemma getAttribute_setAttribute:
  "getAttribute i k' (setAttribute j k v d) =
     (if i = j \<and> k' = k \<and> lookup i d \<noteq> None then Some v else getAttribute i k' d)"
proof (cases "lookup i d")
  case None
  then show ?thesis by (simp add: getAttribute_def lookup_setAttribute)
next
  case (Some n)
  then have "node_id n = Some i" by (rule lookup_node_id)
  with Some show ?thesis
    by (auto simp: getAttribute_def lookup_setAttribute attrs_of_set_attr update_conv')
qed

lemma node_matches_set_attr:
  "stable sel k \<Longrightarrow> node_matches sel (set_attr j k v n) = node_matches sel n"
  by (cases n) (auto simp: stable_def)

lemma matching_set_attr:
  "stable sel k \<Longrightarrow> matching sel (set_attr j k v n) = matching sel n"
  "stable sel k \<Longrightarrow> matching_forest sel (set_attr_forest j k v ns) = matching_forest sel ns"
  by (induction n and ns rule: node_ids_forest_ids.induct) (auto simp: stable_def)

lemma querySelectorAll_setAttribute:
  "stable sel k \<Longrightarrow> querySelectorAll sel (setAttribute j k v d) = querySelectorAll sel d"
  by (simp add: querySelectorAll_def setAttribute_def matching_set_attr)

lemma querySelector_setAttribute:
  "stable sel k \<Longrightarrow> querySelector sel i (setAttribute j k v d) = querySelector sel i d"
  by (simp add: querySelector_def lookup_setAttribute children_of_set_attr matching_set_attr
      split: option.splits)

lemma find_map_stable:
  "(\<And>x. P (f x) = P x) \<Longrightarrow> List.find P (map f xs) = map_option f (List.find P xs)"
  by (induction xs) auto

lemma closest_setAttribute:
  "stable sel k \<Longrightarrow> closest sel i (setAttribute j k v d) = closest sel i d"
  by (simp add: closest_def setAttribute_def all_nodes_def set_attr_forest_append[symmetric]
      chain_set_attr find_map_stable node_matches_set_attr split: option.splits)

lemma stable_has_class: "stable (has_class c) data_lucide"
  by (simp add: stable_def has_class_def update_conv' data_lucide_def)

lemma stable_sel_or: "stable p k \<Longrightarrow> stable q k \<Longrightarrow> stable (sel_or p q) k"
  by (simp add: stable_def sel_or_def)

lemma remove_attr_set_attr:
  "remove_attr i k (set_attr i k v n) = remove_attr i k n"
  "remove_attr_forest i k (set_attr_forest i k v ns) = remove_attr_forest i k ns"
  by (induction n and ns rule: node_ids_forest_ids.induct) (auto simp: delete_update_same)

lemma without_attribute_setAttribute:
  "without_attribute i k (setAttribute i k v d) = without_attribute i k d"
  by (simp add: without_attribute_def setAttribute_def remove_attr_set_attr)

lemma iconMap_values_nonempty: "map_of iconMap k = Some v \<Longrightarrow> v \<noteq> []"
proof -
  assume "map_of iconMap k = Some v"
  then have "v \<in> snd ` set iconMap" by (metis map_of_SomeD image_eqI snd_conv)
  moreover have "\<forall>x \<in> snd ` set iconMap. x \<noteq> []" by (simp add: iconMap_def js_def)
  ultimately show ?thesis by blast
qed

section \<open>addIcon\<close>

lemma addIcon_known:
  "map_of iconMap name = Some v \<Longrightarrow>
   addIcon h el name d = createIcons_if_defined h (setAttribute el data_lucide v d)"
  by (simp add: addIcon_def iconMap_get_def iconMap_values_nonempty)

lemma addIcon_success:
  "addIcon h el (js ''success'') d =
     createIcons_if_defined h (setAttribute el data_lucide (js ''check-circle'') d)"
  by (rule addIcon_known) (simp add: iconMap_def)

lemma addIcon_nonexistent: "addIcon h el (js ''nonexistent'') d = d"
  by (simp add: addIcon_def iconMap_get_def iconMap_def object_prototype_members_def)

text \<open>
  C10. For a name that is a key of the lookup table, \<open>addIcon\<close> is \<open>setAttribute\<close> of
  \<^verbatim>\<open>data-lucide\<close> on the element, to the value the table holds, followed by the render
  call; and that \<open>setAttribute\<close> leaves everything but this one attribute of this one
  element as it was: the other attributes of the element, its children, every other
  element, the detached subtrees and the counter of identities.
\<close>

theorem addIcon_frame:
  assumes "map_of iconMap name = Some v"
  shows "addIcon h el name d = createIcons_if_defined h (setAttribute el data_lucide v d)
         \<and> without_attribute el data_lucide (setAttribute el data_lucide v d)
           = without_attribute el data_lucide d
         \<and> (\<forall>i k. (i, k) \<noteq> (el, data_lucide) \<longrightarrow>
               getAttribute i k (setAttribute el data_lucide v d) = getAttribute i k d)
         \<and> (\<forall>i. textContent i (setAttribute el data_lucide v d) = textContent i d)"
  using assms
  by (auto simp: addIcon_known without_attribute_setAttribute getAttribute_setAttribute)

theorem addIcon_frame_witness:
  "map_of iconMap (js ''success'') = Some (js ''check-circle'')
   \<and> addIcon strict_host 1 (js ''success'') labelled_doc =
       \<lparr>document = [Element 1 (js ''i'')
                      [(js ''data-lucide'', js ''check-circle''), (js ''title'', js ''Start'')]
                      [Text (js ''x'')]],
        detached = [], next_id = 2\<rparr>
   \<and> getAttribute 1 (js ''title'') (addIcon strict_host 1 (js ''success'') labelled_doc)
       = Some (js ''Start'')"
proof -
  have key: "map_of iconMap (js ''success'') = Some (js ''check-circle'')"
    by (simp add: iconMap_def)
  from addIcon_frame [OF key, of strict_host 1 labelled_doc] key show ?thesis
    by (simp add: createIcons_if_defined_def strict_host_def setAttribute_def labelled_doc_def
        data_lucide_def getAttribute_def lookup_def all_nodes_def)
qed

text \<open>
  C3, at a name the table does not hold but every object inherits: the lookup
  \<^verbatim>\<open>this.iconMap["constructor"]\<close> yields the inherited function, which is truthy, and the
  attribute is set to the text of that function.
\<close>

theorem addIcon_inherited_name:
  "map_of iconMap (js ''constructor'') = None
   \<and> getAttribute 1 data_lucide span_doc = None
   \<and> getAttribute 1 data_lucide (addIcon strict_host 1 (js ''constructor'') span_doc)
       = Some (js ''function Object() { [native code] }'')"
  by (simp add: iconMap_def addIcon_def iconMap_get_def object_prototype_members_def
      createIcons_if_defined_def strict_host_def native_text_def getAttribute_setAttribute)
     (simp add: getAttribute_def lookup_def all_nodes_def span_doc_def)

section \<open>The navigation pass\<close>

lemma nav_icon_name_null: "nav_icon_name None text = Inl TypeError"
  by (simp add: nav_icon_name_def)

text \<open>
  With a link target, the cascade of the source is the first match in the ordered list of
  rules, and the empty name when no rule matches.
\<close>

lemma nav_icon_name_first_match:
  "nav_icon_name (Some hr) text =
     Inr (case first_match nav_rules hr text of None \<Rightarrow> Str [] | Some c \<Rightarrow> iconMap_get c)"
  by (simp add: nav_icon_name_def nav_rules_def)

text \<open>
  C2, at a navigation item without \<^verbatim>\<open>href\<close>: \<^verbatim>\<open>getAttribute\<close> gives \<^verbatim>\<open>null\<close>, the
  comparison with the two home targets fails, and \<^verbatim>\<open>href.includes\<close> raises. The
  exception leaves \<open>forEach\<close>, the navigation pass and \<open>applyIcons\<close>, on every host.
\<close>

theorem applyIcons_raises_without_href:
  "getAttribute 1 (js ''href'') href_less_doc = None
   \<and> applyIcons h href_less_doc = (Some TypeError, href_less_doc)"
  by (simp add: applyIcons_def applyNavigationIcons_def nav_item_callback_def
      querySelectorAll_def querySelector_def getAttribute_def hasAttribute_def lookup_def
      all_nodes_def href_less_doc_def has_class_def js_def ascii_whitespace_def
      data_lucide_def nav_icon_name_def)

text \<open>
  C5, at a navigation item without \<^verbatim>\<open>href\<close> whose text holds \<^verbatim>\<open>Tutor IA\<close>: the rule
  for the text matches the item, but the cascade raises at the rule for the teacher
  target, before any rule on the text is reached, and no icon is set.
\<close>

theorem nav_text_rule_unreached_without_href:
  "getAttribute 1 (js ''href'') tutor_button_doc = None
   \<and> includes_js (textContent 1 tutor_button_doc) (js ''Tutor IA'')
   \<and> applyNavigationIcons h tutor_button_doc = (Some TypeError, tutor_button_doc)"
  by (simp add: applyNavigationIcons_def nav_item_callback_def
      querySelectorAll_def querySelector_def getAttribute_def hasAttribute_def lookup_def
      textContent_def all_nodes_def tutor_button_doc_def has_class_def js_def
      ascii_whitespace_def data_lucide_def nav_icon_name_def)

section \<open>Documents that differ by added icon attributes\<close>

lemma labels_added_trans: "labels_added d1 d2 \<Longrightarrow> labels_added d0 d1 \<Longrightarrow> labels_added d0 d2"
  by (induction rule: labels_added.induct) (auto intro: labels_added.intros)

lemma labels_added_step:
  "\<not> hasAttribute j data_lucide d \<Longrightarrow> labels_added d (setAttribute j data_lucide v d)"
  by (rule labels_added.label [OF labels_added.same])

lemma la_text: "labels_added d d' \<Longrightarrow> textContent i d' = textContent i d"
  by (induction rule: labels_added.induct) auto

lemma la_closest: "labels_added d d' \<Longrightarrow> stable sel data_lucide \<Longrightarrow> closest sel i d' = closest sel i d"
  by (induction rule: labels_added.induct) (auto simp: closest_setAttribute)

lemma la_querySelectorAll:
  "labels_added d d' \<Longrightarrow> stable sel data_lucide \<Longrightarrow> querySelectorAll sel d' = querySelectorAll sel d"
  by (induction rule: labels_added.induct) (auto simp: querySelectorAll_setAttribute)

lemma la_querySelector:
  "labels_added d d' \<Longrightarrow> stable sel data_lucide \<Longrightarrow> querySelector sel i d' = querySelector sel i d"
  by (induction rule: labels_added.induct) (auto simp: querySelector_setAttribute)

lemma la_lookup: "labels_added d d' \<Longrightarrow> lookup i d' = None \<longleftrightarrow> lookup i d = None"
  by (induction rule: labels_added.induct) (auto simp: lookup_setAttribute)

lemma la_attr_other:
  "labels_added d d' \<Longrightarrow> k \<noteq> data_lucide \<Longrightarrow> getAttribute i k d' = getAttribute i k d"
  by (induction rule: labels_added.induct) (auto simp: getAttribute_setAttribute)

lemma la_kept:
  "labels_added d d' \<Longrightarrow> getAttribute i data_lucide d = Some v \<Longrightarrow> getAttribute i data_lucide d' = Some v"
  by (induction rule: labels_added.induct) (auto simp: getAttribute_setAttribute hasAttribute_def)

lemma la_has: "labels_added d d' \<Longrightarrow> hasAttribute i k d \<Longrightarrow> hasAttribute i k d'"
  by (induction rule: labels_added.induct) (auto simp: getAttribute_setAttribute hasAttribute_def)

lemma matching_subset_ids:
  "set (matching sel n) \<subseteq> set (node_ids n)"
  "set (matching_forest sel ns) \<subseteq> set (forest_ids ns)"
  by (induction n and ns rule: node_ids_forest_ids.induct) auto

lemma chain_ids_subset:
  "x \<in> set (chain i n) \<Longrightarrow> set (node_ids x) \<subseteq> set (node_ids n)"
  "x \<in> set (chain_forest i ns) \<Longrightarrow> set (node_ids x) \<subseteq> set (forest_ids ns)"
  by (induction n and ns arbitrary: x and x rule: node_ids_forest_ids.induct)
     (auto split: list.splits if_splits)

lemma lookup_exists_iff: "lookup i d \<noteq> None \<longleftrightarrow> i \<in> set (forest_ids (all_nodes d))"
  using chain_nonempty_iff(2)[of i "all_nodes d"] by (auto simp: lookup_def split: list.splits)

lemma lookup_ids_subset: "lookup i d = Some n \<Longrightarrow> set (node_ids n) \<subseteq> set (forest_ids (all_nodes d))"
  using chain_ids_subset(2)[of n i "all_nodes d"] by (auto simp: lookup_def split: list.splits)

lemma forest_ids_children: "set (forest_ids (children_of n)) \<subseteq> set (node_ids n)"
  by (cases n) auto

lemma querySelector_exists: "querySelector sel i d = Some x \<Longrightarrow> lookup x d \<noteq> None"
proof -
  assume q: "querySelector sel i d = Some x"
  then obtain n where n: "lookup i d = Some n" and "x \<in> set (matching_forest sel (children_of n))"
    by (auto simp: querySelector_def split: option.splits list.splits)
  then have "x \<in> set (node_ids n)"
    using matching_subset_ids(2) forest_ids_children by blast
  with lookup_ids_subset[OF n] have "x \<in> set (forest_ids (all_nodes d))" by blast
  then show ?thesis by (simp only: lookup_exists_iff)
qed

lemma closest_exists: "closest sel i d = Some x \<Longrightarrow> lookup i d \<noteq> None"
  by (auto simp: closest_def lookup_def split: option.splits list.splits)

lemma forest_ids_append: "forest_ids (xs @ ys) = forest_ids xs @ forest_ids ys"
  by (induction xs) auto

lemma querySelectorAll_exists: "x \<in> set (querySelectorAll sel d) \<Longrightarrow> lookup x d \<noteq> None"
proof -
  assume "x \<in> set (querySelectorAll sel d)"
  then have "x \<in> set (forest_ids (document d))"
    using matching_subset_ids(2)[of sel "document d"] by (auto simp: querySelectorAll_def)
  then have "x \<in> set (forest_ids (all_nodes d))" by (simp add: all_nodes_def forest_ids_append)
  then show ?thesis by (simp only: lookup_exists_iff)
qed

section \<open>The navigation pass, one item at a time\<close>

lemma nav_item_callback_labels: "labels_added d (snd (nav_item_callback h x d))"
  by (auto simp: nav_item_callback_def Let_def intro: labels_added.same labels_added_step
      split: option.splits sum.splits)

lemma forEach_labels:
  "(\<And>x d. labels_added d (snd (f x d))) \<Longrightarrow> labels_added d (snd (forEach f xs d))"
proof (induction xs arbitrary: d)
  case Nil
  then show ?case by (simp add: labels_added.same)
next
  case (Cons x xs)
  obtain e d' where f: "f x d = (e, d')" by (cases "f x d")
  have step: "labels_added d d'" using Cons.prems[of d x] f by simp
  show ?case
  proof (cases e)
    case None
    have "labels_added d' (snd (forEach f xs d'))" using Cons.IH Cons.prems by blast
    with step None f show ?thesis by (auto intro: labels_added_trans)
  next
    case (Some a)
    with step f show ?thesis by simp
  qed
qed

lemma applyNavigationIcons_labels: "labels_added d (snd (applyNavigationIcons h d))"
  unfolding applyNavigationIcons_def by (rule forEach_labels) (rule nav_item_callback_labels)

lemma first_match_nav_rules_category:
  "first_match nav_rules hr text = Some c \<Longrightarrow>
   c \<in> {js ''home'', js ''teacher'', js ''student'', js ''analytics'', js ''bot'', js ''reports'',
        js ''documents''}"
  by (simp add: nav_rules_def split: if_splits)

lemma js_Nil_iff [simp]: "js s = [] \<longleftrightarrow> s = []"
  by (simp add: js_def)

lemma iconMap_nav_entries:
  "map_of iconMap (js ''home'') = Some (js ''home'')"
  "map_of iconMap (js ''teacher'') = Some (js ''graduation-cap'')"
  "map_of iconMap (js ''student'') = Some (js ''user'')"
  "map_of iconMap (js ''analytics'') = Some (js ''bar-chart-3'')"
  "map_of iconMap (js ''bot'') = Some (js ''bot'')"
  "map_of iconMap (js ''reports'') = Some (js ''file-text'')"
  "map_of iconMap (js ''documents'') = Some (js ''folder'')"
  by (simp_all add: iconMap_def)

lemma nav_category_mapped:
  "c \<in> {js ''home'', js ''teacher'', js ''student'', js ''analytics'', js ''bot'', js ''reports'',
        js ''documents''} \<Longrightarrow> \<exists>v. map_of iconMap c = Some v \<and> iconMap_get c = Str v \<and> v \<noteq> []"
  by (elim insertE emptyE) (simp_all add: iconMap_get_def iconMap_nav_entries)

lemma home_targets_without_teacher:
  "\<not> includes_js (js ''/'') (js ''teacher'')"
  "\<not> includes_js (js ''/index'') (js ''teacher'')"
  by (simp_all add: js_def)

lemma teacher_rule_first:
  assumes "hr = js ''/teacher'' \<or> includes_js hr (js ''teacher'')"
  shows "first_match nav_rules hr text = Some (js ''teacher'')"
proof -
  have "hr \<noteq> js ''/''" "hr \<noteq> js ''/index''"
    using assms home_targets_without_teacher by auto
  with assms show ?thesis by (simp add: nav_rules_def)
qed

text \<open>
  C4, as the code has it. When the callback of the navigation pass runs on an item that
  has a link target, whose first descendant of class \<^verbatim>\<open>nav-item-icon\<close> has no
  \<^verbatim>\<open>data-lucide\<close> attribute at that moment, and for which some rule matches, then
  after the callback the attribute of that descendant is the identifier the lookup table
  holds for the category of the first matching rule; for a target that is \<^verbatim>\<open>/teacher\<close>
  or contains \<^verbatim>\<open>teacher\<close> this is \<^verbatim>\<open>graduation-cap\<close>. Whether the callback
  then raises is left open.
\<close>

theorem nav_item_callback_sets_mapped_icon:
  assumes href: "getAttribute item (js ''href'') d = Some hr"
    and icon: "querySelector (has_class (js ''nav-item-icon'')) item d = Some ic"
    and free: "\<not> hasAttribute ic data_lucide d"
    and rule: "first_match nav_rules hr (textContent item d) = Some category"
  shows "getAttribute ic data_lucide (snd (nav_item_callback h item d)) = map_of iconMap category
         \<and> map_of iconMap category \<noteq> None
         \<and> (hr = js ''/teacher'' \<or> includes_js hr (js ''teacher'') \<longrightarrow>
              getAttribute ic data_lucide (snd (nav_item_callback h item d))
                = Some (js ''graduation-cap''))"
proof -
  obtain v where v: "map_of iconMap category = Some v" "iconMap_get category = Str v" "v \<noteq> []"
    using nav_category_mapped[OF first_match_nav_rules_category[OF rule]] by blast
  have ex: "lookup ic d \<noteq> None" using icon by (rule querySelector_exists)
  have name: "nav_icon_name (Some hr) (textContent item d) = Inr (Str v)"
    by (simp add: nav_icon_name_first_match rule v)
  have res: "snd (nav_item_callback h item d) = setAttribute ic data_lucide v d"
    using href icon free name v by (simp add: nav_item_callback_def)
  have set: "getAttribute ic data_lucide (snd (nav_item_callback h item d)) = Some v"
    using ex by (simp add: res getAttribute_setAttribute)
  have teacher: "v = js ''graduation-cap''"
    if "hr = js ''/teacher'' \<or> includes_js hr (js ''teacher'')"
  proof -
    have "category = js ''teacher''" using teacher_rule_first[OF that] rule by simp
    with v show ?thesis by (simp add: iconMap_def)
  qed
  show ?thesis using set v teacher by auto
qed

theorem nav_item_callback_sets_mapped_icon_witness:
  "getAttribute 1 (js ''href'') teacher_nav_doc = Some (js ''/teacher'')
   \<and> querySelector (has_class (js ''nav-item-icon'')) 1 teacher_nav_doc = Some 2
   \<and> \<not> hasAttribute 2 data_lucide teacher_nav_doc
   \<and> first_match nav_rules (js ''/teacher'') (textContent 1 teacher_nav_doc) = Some (js ''teacher'')
   \<and> getAttribute 2 data_lucide (snd (nav_item_callback strict_host 1 teacher_nav_doc))
       = Some (js ''graduation-cap'')"
proof -
  have a: "getAttribute 1 (js ''href'') teacher_nav_doc = Some (js ''/teacher'')"
    by (simp add: getAttribute_def lookup_def all_nodes_def teacher_nav_doc_def)
  have b: "querySelector (has_class (js ''nav-item-icon'')) 1 teacher_nav_doc = Some 2"
    by (simp add: querySelector_def lookup_def all_nodes_def teacher_nav_doc_def has_class_def
        js_def ascii_whitespace_def)
  have c: "\<not> hasAttribute 2 data_lucide teacher_nav_doc"
    by (simp add: hasAttribute_def getAttribute_def lookup_def all_nodes_def teacher_nav_doc_def
        data_lucide_def)
  have e: "first_match nav_rules (js ''/teacher'') (textContent 1 teacher_nav_doc) = Some (js ''teacher'')"
    by (rule teacher_rule_first) simp
  have "getAttribute 2 data_lucide (snd (nav_item_callback strict_host 1 teacher_nav_doc))
          = Some (js ''graduation-cap'')"
    using nav_item_callback_sets_mapped_icon [OF a b c e, of strict_host]
    by (simp add: iconMap_nav_entries)
  with a b c e show ?thesis by simp
qed






text \<open>
  C4 as stated fails for an item whose icon element is also the icon element of an item
  around it: the outer item comes first in document order and labels the element by its
  own rule; the callback on the inner item then finds the attribute and leaves the element
  alone. Here the inner target is \<^verbatim>\<open>/teacher\<close> and the icon is \<^verbatim>\<open>user\<close>.
\<close>

theorem nested_nav_item_keeps_outer_icon:
  "querySelectorAll (has_class (js ''nav-item'')) nested_nav_doc = [1, 2]
   \<and> getAttribute 2 (js ''href'') nested_nav_doc = Some (js ''/teacher'')
   \<and> querySelector (has_class (js ''nav-item-icon'')) 2 nested_nav_doc = Some 3
   \<and> \<not> hasAttribute 3 data_lucide nested_nav_doc
   \<and> getAttribute 3 data_lucide (snd (applyNavigationIcons strict_host nested_nav_doc)) = Some (js ''user'')
   \<and> nav_item_callback strict_host 2 (snd (applyNavigationIcons strict_host nested_nav_doc))
       = (None, snd (applyNavigationIcons strict_host nested_nav_doc))"
  by (simp add: applyNavigationIcons_def nav_item_callback_def
      querySelectorAll_def querySelector_def getAttribute_def hasAttribute_def lookup_def
      textContent_def all_nodes_def nested_nav_doc_def has_class_def js_def
      ascii_whitespace_def data_lucide_def nav_icon_name_def iconMap_get_def iconMap_def
      setAttribute_def strict_host_def)

section \<open>The file-icon inference\<close>

lemma fold_labels:
  "(\<And>x d. labels_added d (f x d)) \<Longrightarrow> labels_added d (fold f xs d)"
proof (induction xs arbitrary: d)
  case Nil
  then show ?case by (simp add: labels_added.same)
next
  case (Cons x xs)
  have "labels_added d (f x d)" by (rule Cons.prems)
  moreover have "labels_added (f x d) (fold f xs (f x d))" using Cons.IH Cons.prems by blast
  ultimately show ?case by (auto intro: labels_added_trans)
qed

lemma file_icon_callback_eq:
  assumes "\<not> hasAttribute icon data_lucide d" and "trim (textContent icon d) = []"
    and "closest (sel_or (has_class (js ''document-item'')) (has_class (js ''metric-card''))) icon d
           = Some container"
  shows "file_icon_callback h icon d =
           setAttribute icon data_lucide
             (file_icon_choice (toLowerCase h (textContent container d))) d"
  using assms
  by (simp add: file_icon_callback_def file_icon_choice_def iconMap_get_def iconMap_nav_entries)

lemma file_icon_callback_labels: "labels_added d (file_icon_callback h x d)"
  by (auto simp: file_icon_callback_def Let_def intro: labels_added.same labels_added_step
      split: option.splits)

lemma file_icon_callback_other:
  "i \<noteq> x \<Longrightarrow> getAttribute i k (file_icon_callback h x d) = getAttribute i k d"
  by (simp add: file_icon_callback_def getAttribute_setAttribute Let_def split: option.splits)

lemma stable_container: 
  "stable (sel_or (has_class (js ''document-item'')) (has_class (js ''metric-card''))) data_lucide"
  by (intro stable_sel_or stable_has_class)

lemma fold_file_icon_sets:
  assumes "icon \<in> set xs" and "\<not> hasAttribute icon data_lucide d"
    and "trim (textContent icon d) = []"
    and "closest (sel_or (has_class (js ''document-item'')) (has_class (js ''metric-card''))) icon d
           = Some container"
  shows "getAttribute icon data_lucide (fold (file_icon_callback h) xs d) =
           Some (file_icon_choice (toLowerCase h (textContent container d)))"
  using assms
proof (induction xs arbitrary: d)
  case Nil
  then show ?case by simp
next
  case (Cons x xs)
  let ?d = "file_icon_callback h x d"
  have la: "labels_added d ?d" by (rule file_icon_callback_labels)
  show ?case
  proof (cases "x = icon")
    case True
    have ex: "lookup icon d \<noteq> None" using Cons.prems(4) by (rule closest_exists)
    have "?d = setAttribute icon data_lucide
                 (file_icon_choice (toLowerCase h (textContent container d))) d"
      using True file_icon_callback_eq[OF Cons.prems(2,3,4)] by simp
    then have "getAttribute icon data_lucide ?d =
                 Some (file_icon_choice (toLowerCase h (textContent container d)))"
      using ex by (simp add: getAttribute_setAttribute)
    moreover have "labels_added ?d (fold (file_icon_callback h) xs ?d)"
      by (rule fold_labels) (rule file_icon_callback_labels)
    ultimately show ?thesis by (simp add: la_kept)
  next
    case False
    then have mem: "icon \<in> set xs" using Cons.prems(1) by simp
    have a: "\<not> hasAttribute icon data_lucide ?d"
      using False Cons.prems(2) by (simp add: hasAttribute_def file_icon_callback_other)
    have b: "trim (textContent icon ?d) = []" using Cons.prems(3) by (simp add: la_text[OF la])
    have c: "closest (sel_or (has_class (js ''document-item'')) (has_class (js ''metric-card'')))
               icon ?d = Some container"
      using Cons.prems(4) by (simp add: la_closest[OF la stable_container])
    from Cons.IH[OF mem a b c] show ?thesis by (simp add: la_text[OF la])
  qed
qed

lemma metric_icon_callback_labels: "labels_added d (metric_icon_callback h x d)"
  by (auto simp: metric_icon_callback_def Let_def intro: labels_added.same labels_added_step
      split: option.splits)

lemma file_icons_loop_labels: "labels_added d (file_icons_loop h d)"
  unfolding file_icons_loop_def by (rule fold_labels) (rule file_icon_callback_labels)

lemma metric_icons_loop_labels: "labels_added d (metric_icons_loop h d)"
  unfolding metric_icons_loop_def by (rule fold_labels) (rule metric_icon_callback_labels)

lemma file_doc_icons: "querySelectorAll (has_class (js ''file-icon'')) file_doc = [6, 8]"
  by (simp add: querySelectorAll_def file_doc_def has_class_def js_def ascii_whitespace_def)

lemma file_doc_containers:
  "closest (sel_or (has_class (js ''document-item'')) (has_class (js ''metric-card''))) 6 file_doc
     = Some 5"
  "closest (sel_or (has_class (js ''document-item'')) (has_class (js ''metric-card''))) 8 file_doc
     = Some 7"
  by (simp_all add: closest_def all_nodes_def file_doc_def sel_or_def has_class_def js_def
      ascii_whitespace_def)

lemma file_doc_unlabelled:
  "\<not> hasAttribute 6 data_lucide file_doc" "\<not> hasAttribute 8 data_lucide file_doc"
  by (simp_all add: hasAttribute_def getAttribute_def lookup_def all_nodes_def file_doc_def
      data_lucide_def)

lemma file_doc_empty_text:
  "trim (textContent 6 file_doc) = []" "trim (textContent 8 file_doc) = []"
  by (simp_all add: textContent_def lookup_def all_nodes_def file_doc_def js_def)
     (simp_all add: trim_def js_whitespace_def)

lemma file_doc_texts:
  "toLowerCase strict_host (textContent 5 file_doc) = js ''lista de estudantes''"
  "toLowerCase strict_host (textContent 7 file_doc) = js '' notas.pdf''"
  by (simp_all add: strict_host_def textContent_def lookup_def all_nodes_def file_doc_def js_def
      lower_unit_def)

section \<open>The table of attributes and well-formed stores\<close>

lemma attr_table_ids:
  "map fst (attr_table n) = node_ids n"
  "map fst (attr_table_forest ns) = forest_ids ns"
  by (induction n and ns rule: node_ids_forest_ids.induct) auto

lemma attr_table_forest_append:
  "attr_table_forest (xs @ ys) = attr_table_forest xs @ attr_table_forest ys"
  by (induction xs) auto

lemma map_of_attr_table:
  "map_of (attr_table n) i = (case chain i n of [] \<Rightarrow> None | x # xs \<Rightarrow> Some (attrs_of x))"
  "map_of (attr_table_forest ns) i =
     (case chain_forest i ns of [] \<Rightarrow> None | x # xs \<Rightarrow> Some (attrs_of x))"
  by (induction n and ns rule: node_ids_forest_ids.induct)
     (auto simp: map_add_def split: list.splits option.splits)

lemma getAttribute_table:
  "getAttribute i k d =
     (case map_of (attr_table_forest (all_nodes d)) i of None \<Rightarrow> None | Some as \<Rightarrow> map_of as k)"
  by (simp add: getAttribute_def lookup_def map_of_attr_table split: list.splits)

lemma chain_last:
  "chain i n = x # xs \<Longrightarrow> last (x # xs) = n"
  by (cases n) (auto split: if_splits list.splits)

lemma set_children_absent:
  "i \<notin> set (node_ids n) \<Longrightarrow> set_children i new n = n"
  "i \<notin> set (forest_ids ns) \<Longrightarrow> set_children_forest i new ns = ns"
  by (induction n and ns rule: node_ids_forest_ids.induct) auto

lemma set_children_forest_append:
  "set_children_forest i new (xs @ ys) = set_children_forest i new xs @ set_children_forest i new ys"
  by (induction xs) auto

lemma set_children_table:
  "distinct (node_ids n) \<Longrightarrow> chain b n = x # xs \<Longrightarrow>
     mset (attr_table (set_children b new n)) + mset (attr_table_forest (children_of x))
       = mset (attr_table n) + mset (attr_table_forest new)"
  "distinct (forest_ids ns) \<Longrightarrow> chain_forest b ns = x # xs \<Longrightarrow>
     mset (attr_table_forest (set_children_forest b new ns)) + mset (attr_table_forest (children_of x))
       = mset (attr_table_forest ns) + mset (attr_table_forest new)"
proof (induction n and ns arbitrary: x xs and x xs rule: node_ids_forest_ids.induct)
  case (1 t)
  then show ?case by simp
next
  case (2 j tg as cs)
  show ?case
  proof (cases "b = j")
    case True
    with 2 show ?thesis by auto
  next
    case False
    with "2.prems" obtain ys where "chain_forest b cs = x # ys"
      by (auto split: list.splits)
    moreover have "distinct (forest_ids cs)" using "2.prems" by simp
    ultimately have "mset (attr_table_forest (set_children_forest b new cs))
                     + mset (attr_table_forest (children_of x))
                   = mset (attr_table_forest cs) + mset (attr_table_forest new)"
      by (rule "2.IH"[rotated])
    with False show ?thesis by simp
  qed
next
  case 3
  then show ?case by simp
next
  case (4 c cs)
  have dc: "distinct (node_ids c)" and dcs: "distinct (forest_ids cs)"
    and disj: "set (node_ids c) \<inter> set (forest_ids cs) = {}"
    using "4.prems" by auto
  show ?case
  proof (cases "chain b c")
    case Nil
    then have "b \<notin> set (node_ids c)" using chain_nonempty_iff(1)[of b c] by simp
    then have same: "set_children b new c = c" by (rule set_children_absent)
    from Nil "4.prems" have "chain_forest b cs = x # xs" by simp
    from "4.IH"(2)[OF dcs this] same show ?thesis by simp
  next
    case (Cons y ys)
    then have "b \<in> set (node_ids c)" using chain_nonempty_iff(1)[of b c] by simp
    with disj have "b \<notin> set (forest_ids cs)" by auto
    then have same: "set_children_forest b new cs = cs" by (rule set_children_absent)
    from Cons "4.prems" have "chain b c = x # xs" by simp
    from "4.IH"(1)[OF dc this] same show ?thesis by simp
  qed
qed

lemma node_id_in_ids: "node_id n = Some i \<Longrightarrow> i \<in> set (node_ids n)"
  by (cases n) auto

lemma replace_absent:
  "i \<notin> set (node_ids n) \<Longrightarrow> replace_child i new n = n"
  "i \<notin> set (forest_ids ns) \<Longrightarrow> replace_in_forest i new ns = ns"
  by (induction n and ns rule: node_ids_forest_ids.induct) (auto dest: node_id_in_ids)

lemma chain_root: "node_id n = Some i \<Longrightarrow> chain i n = [n]"
  by (cases n) auto

lemma chain_below_root:
  assumes "chain i n = x # xs" and "node_id n \<noteq> Some i"
  shows "xs \<noteq> []"
proof
  assume "xs = []"
  with assms(1) have "x = n" using chain_last[OF assms(1)] by simp
  moreover have "node_id x = Some i" using assms(1) by (rule chain_head_id)
  ultimately show False using assms(2) by simp
qed

lemma replace_table:
  "distinct (node_ids n) \<Longrightarrow> chain i n = x # xs \<Longrightarrow> xs \<noteq> [] \<Longrightarrow>
     mset (attr_table (replace_child i new n)) + mset (attr_table x)
       = mset (attr_table n) + mset (attr_table new)"
  "distinct (forest_ids ns) \<Longrightarrow> chain_forest i ns = x # xs \<Longrightarrow>
     mset (attr_table_forest (replace_in_forest i new ns)) + mset (attr_table x)
       = mset (attr_table_forest ns) + mset (attr_table new)"
proof (induction n and ns arbitrary: x xs and x xs rule: node_ids_forest_ids.induct)
  case (1 t)
  then show ?case by simp
next
  case (2 j tg as cs)
  from "2.prems" have ne: "i \<noteq> j" by (auto split: if_splits)
  with "2.prems" obtain ys where "chain_forest i cs = x # ys"
    by (auto split: list.splits)
  moreover have "distinct (forest_ids cs)" using "2.prems" by simp
  ultimately have "mset (attr_table_forest (replace_in_forest i new cs)) + mset (attr_table x)
                   = mset (attr_table_forest cs) + mset (attr_table new)"
    by (rule "2.IH"[rotated])
  then show ?case by simp
next
  case 3
  then show ?case by simp
next
  case (4 c cs)
  have dc: "distinct (node_ids c)" and dcs: "distinct (forest_ids cs)"
    and disj: "set (node_ids c) \<inter> set (forest_ids cs) = {}"
    using "4.prems" by auto
  show ?case
  proof (cases "chain i c")
    case Nil
    then have absent: "i \<notin> set (node_ids c)" using chain_nonempty_iff(1)[of i c] by simp
    then have same: "replace_child i new c = c" by (rule replace_absent)
    have nroot: "node_id c \<noteq> Some i" using absent node_id_in_ids by blast
    from Nil "4.prems" have "chain_forest i cs = x # xs" by simp
    from "4.IH"(2)[OF dcs this] same nroot show ?thesis by simp
  next
    case (Cons y ys)
    then have "i \<in> set (node_ids c)" using chain_nonempty_iff(1)[of i c] by simp
    with disj have "i \<notin> set (forest_ids cs)" by auto
    then have same: "replace_in_forest i new cs = cs" by (rule replace_absent)
    from Cons "4.prems" have ch: "chain i c = x # xs" by simp
    show ?thesis
    proof (cases "node_id c = Some i")
      case True
      then have "x = c" using ch chain_root by simp
      with True same show ?thesis by simp
    next
      case False
      have "xs \<noteq> []" using ch False by (rule chain_below_root)
      from "4.IH"(1)[OF dc ch this] same False show ?thesis by simp
    qed
  qed
qed

lemma replace_top_level:
  "Some i \<notin> set (map node_id ns) \<Longrightarrow> map (replace_child i new) ns = replace_in_forest i new ns"
  by (induction ns) auto

lemma table_extended:
  assumes d: "distinct (map fst xs)" and m: "mset ys = mset xs + {#(f, a)#}"
    and fresh: "f \<notin> fst ` set xs"
  shows "distinct (map fst ys)" and "map_of ys = (map_of xs)(f \<mapsto> a)"
proof -
  have e: "mset ys = mset ((f, a) # xs)" using m by simp
  have k: "mset (map fst ys) = mset (map fst ((f, a) # xs))"
    using arg_cong[OF e, of "image_mset fst"] by simp
  have dx: "distinct (map fst ((f, a) # xs))" using d fresh by simp
  show dy: "distinct (map fst ys)" using mset_eq_imp_distinct_iff[OF k] dx by simp
  have "set ys = set ((f, a) # xs)" using e by (rule mset_eq_setD)
  then have "map_of ys = map_of ((f, a) # xs)"
    using map_of_inject_set[OF dy dx] by simp
  then show "map_of ys = (map_of xs)(f \<mapsto> a)" by simp
qed

lemma forest_ids_set_attr:
  "node_ids (set_attr j k v n) = node_ids n"
  "forest_ids (set_attr_forest j k v ns) = forest_ids ns"
  by (induction n and ns rule: node_ids_forest_ids.induct) auto

lemma well_formed_setAttribute: "well_formed d \<Longrightarrow> well_formed (setAttribute j k v d)"
  by (simp add: well_formed_def setAttribute_def all_nodes_def forest_ids_append forest_ids_set_attr)

lemma well_formed_fresh: "well_formed d \<Longrightarrow> next_id d \<notin> set (forest_ids (all_nodes d))"
  by (auto simp: well_formed_def)

lemma set_innerHTML_table:
  assumes wf: "well_formed d" and ex: "lookup b d \<noteq> None"
  shows "well_formed (set_innerHTML b (icon_markup name) d)"
    and "map_of (attr_table_forest (all_nodes (set_innerHTML b (icon_markup name) d)))
           = (map_of (attr_table_forest (all_nodes d)))(next_id d \<mapsto> [(js ''data-lucide'', name)])"
proof -
  let ?new = "icon_markup name (next_id d)"
  let ?d = "set_innerHTML b (icon_markup name) d"
  obtain x xs where ch: "chain_forest b (all_nodes d) = x # xs"
    using ex by (auto simp: lookup_def split: list.splits)
  then have lk: "lookup b d = Some x" by (simp add: lookup_def)
  have an: "all_nodes ?d = set_children_forest b [?new] (all_nodes d) @ children_of x"
    using lk by (simp add: set_innerHTML_def all_nodes_def set_children_forest_append)
  have dist: "distinct (forest_ids (all_nodes d))" using wf by (simp add: well_formed_def)
  have m: "mset (attr_table_forest (all_nodes ?d))
             = mset (attr_table_forest (all_nodes d)) + {#(next_id d, [(js ''data-lucide'', name)])#}"
    using set_children_table(2)[OF dist ch, of "[?new]"]
    by (simp add: an attr_table_forest_append icon_markup_def)
  have d1: "distinct (map fst (attr_table_forest (all_nodes d)))"
    using dist by (simp add: attr_table_ids)
  have fr: "next_id d \<notin> fst ` set (attr_table_forest (all_nodes d))"
    using well_formed_fresh[OF wf] by (simp add: attr_table_ids flip: set_map)
  from table_extended[OF d1 m fr]
  have dd: "distinct (map fst (attr_table_forest (all_nodes ?d)))"
    and t: "map_of (attr_table_forest (all_nodes ?d))
           = (map_of (attr_table_forest (all_nodes d)))(next_id d \<mapsto> [(js ''data-lucide'', name)])"
    by simp_all
  show "map_of (attr_table_forest (all_nodes ?d))
           = (map_of (attr_table_forest (all_nodes d)))(next_id d \<mapsto> [(js ''data-lucide'', name)])"
    by (rule t)
  have ids: "set (forest_ids (all_nodes ?d)) = insert (next_id d) (set (forest_ids (all_nodes d)))"
  proof -
    have "mset (map fst (attr_table_forest (all_nodes ?d)))
            = mset (map fst ((next_id d, [(js ''data-lucide'', name)]) # attr_table_forest (all_nodes d)))"
      using arg_cong[OF m, of "image_mset fst"] by simp
    then have "set (map fst (attr_table_forest (all_nodes ?d)))
            = set (map fst ((next_id d, [(js ''data-lucide'', name)]) # attr_table_forest (all_nodes d)))"
      by (rule mset_eq_setD)
    then show ?thesis by (simp add: attr_table_ids)
  qed
  have nx: "next_id ?d = Suc (next_id d)" using lk by (simp add: set_innerHTML_def)
  show "well_formed ?d"
    using dd ids nx wf by (auto simp: well_formed_def attr_table_ids less_Suc_eq)
qed

lemma set_outerHTML_table:
  assumes wf: "well_formed d"
  shows "well_formed (snd (set_outerHTML i (icon_markup name) d))"
    and "snd (set_outerHTML i (icon_markup name) d) = d
         \<or> map_of (attr_table_forest (all_nodes (snd (set_outerHTML i (icon_markup name) d))))
             = (map_of (attr_table_forest (all_nodes d)))(next_id d \<mapsto> [(js ''data-lucide'', name)])"
proof -
  let ?new = "icon_markup name (next_id d)"
  let ?d = "snd (set_outerHTML i (icon_markup name) d)"
  have "well_formed ?d \<and> (?d = d
         \<or> map_of (attr_table_forest (all_nodes ?d))
             = (map_of (attr_table_forest (all_nodes d)))(next_id d \<mapsto> [(js ''data-lucide'', name)]))"
  proof (cases "Some i \<in> set (map node_id (document d)) \<or> Some i \<in> set (map node_id (detached d))
                \<or> lookup i d = None")
    case True
    then have "?d = d" by (auto simp: set_outerHTML_def)
    with wf show ?thesis by simp
  next
    case False
    then obtain x where lk: "lookup i d = Some x" by auto
    then obtain xs where ch: "chain_forest i (all_nodes d) = x # xs"
      by (auto simp: lookup_def split: list.splits)
    have top: "Some i \<notin> set (map node_id (all_nodes d))" using False by (auto simp: all_nodes_def)
    have res: "?d = d\<lparr>document := map (replace_child i ?new) (document d),
                      detached := map (replace_child i ?new) (detached d) @ [x],
                      next_id := Suc (next_id d)\<rparr>"
      using False lk by (auto simp: set_outerHTML_def)
    have an: "all_nodes ?d = replace_in_forest i ?new (all_nodes d) @ [x]"
      using replace_top_level[OF top, of ?new] by (simp add: res all_nodes_def)
    have dist: "distinct (forest_ids (all_nodes d))" using wf by (simp add: well_formed_def)
    have m: "mset (attr_table_forest (all_nodes ?d))
               = mset (attr_table_forest (all_nodes d)) + {#(next_id d, [(js ''data-lucide'', name)])#}"
      using replace_table(2)[OF dist ch, of ?new]
      by (simp add: an attr_table_forest_append icon_markup_def)
    have d1: "distinct (map fst (attr_table_forest (all_nodes d)))"
      using dist by (simp add: attr_table_ids)
    have fr: "next_id d \<notin> fst ` set (attr_table_forest (all_nodes d))"
      using well_formed_fresh[OF wf] by (simp add: attr_table_ids flip: set_map)
    from table_extended[OF d1 m fr]
    have dd: "distinct (map fst (attr_table_forest (all_nodes ?d)))"
      and t: "map_of (attr_table_forest (all_nodes ?d))
             = (map_of (attr_table_forest (all_nodes d)))(next_id d \<mapsto> [(js ''data-lucide'', name)])"
      by simp_all
    have "mset (map fst (attr_table_forest (all_nodes ?d)))
            = mset (map fst ((next_id d, [(js ''data-lucide'', name)]) # attr_table_forest (all_nodes d)))"
      using arg_cong[OF m, of "image_mset fst"] by simp
    then have "set (map fst (attr_table_forest (all_nodes ?d)))
            = set (map fst ((next_id d, [(js ''data-lucide'', name)]) # attr_table_forest (all_nodes d)))"
      by (rule mset_eq_setD)
    then have ids: "set (forest_ids (all_nodes ?d)) = insert (next_id d) (set (forest_ids (all_nodes d)))"
      by (simp add: attr_table_ids)
    have nx: "next_id ?d = Suc (next_id d)" by (simp add: res)
    have "well_formed ?d"
      using dd ids nx wf by (auto simp: well_formed_def attr_table_ids less_Suc_eq)
    with t show ?thesis by simp
  qed
  then show "well_formed ?d"
    and "?d = d \<or> map_of (attr_table_forest (all_nodes ?d))
             = (map_of (attr_table_forest (all_nodes d)))(next_id d \<mapsto> [(js ''data-lucide'', name)])"
    by simp_all
qed

section \<open>Which icon attributes a step leaves and which it adds\<close>

lemma icons_from_refl: "icons_from S d d"
  by (simp add: icons_from_def)

lemma icons_from_trans: "icons_from S d d' \<Longrightarrow> icons_from S d' d'' \<Longrightarrow> icons_from S d d''"
  unfolding icons_from_def by blast

lemma icons_from_mono: "icons_from S d d' \<Longrightarrow> S \<subseteq> T \<Longrightarrow> icons_from T d d'"
  unfolding icons_from_def by blast

lemma icons_from_setAttribute:
  "\<not> hasAttribute j data_lucide d \<Longrightarrow> v \<in> S \<Longrightarrow> icons_from S d (setAttribute j data_lucide v d)"
  by (auto simp: icons_from_def getAttribute_setAttribute hasAttribute_def)

lemma icons_from_extended:
  assumes "map_of (attr_table_forest (all_nodes d'))
             = (map_of (attr_table_forest (all_nodes d)))(f \<mapsto> [(js ''data-lucide'', name)])"
    and "f \<notin> set (forest_ids (all_nodes d))" and "name \<in> S"
  shows "icons_from S d d'"
proof -
  have absent: "map_of (attr_table_forest (all_nodes d)) f = None"
    using assms(2) by (simp add: map_of_eq_None_iff attr_table_ids flip: set_map)
  show ?thesis
    unfolding icons_from_def getAttribute_table assms(1)
    using absent assms(3) by (auto simp: data_lucide_def split: option.splits if_splits)
qed

lemma table_value: "map_of iconMap k = Some v \<Longrightarrow> v \<in> table_identifiers"
  unfolding table_identifiers_def by (metis map_of_SomeD image_eqI snd_conv)

lemma iconMap_interface_entries:
  "map_of iconMap (js ''menu'') = Some (js ''menu'')"
  "map_of iconMap (js ''send'') = Some (js ''send'')"
  "map_of iconMap (js ''users'') = Some (js ''users'')"
  "map_of iconMap (js ''clock'') = Some (js ''clock'')"
  by (simp_all add: iconMap_def)

lemmas table_identifiers_used =
  table_value[OF iconMap_nav_entries(1)] table_value[OF iconMap_nav_entries(2)]
  table_value[OF iconMap_nav_entries(3)] table_value[OF iconMap_nav_entries(4)]
  table_value[OF iconMap_nav_entries(5)] table_value[OF iconMap_nav_entries(6)]
  table_value[OF iconMap_nav_entries(7)] table_value[OF iconMap_interface_entries(1)]
  table_value[OF iconMap_interface_entries(2)] table_value[OF iconMap_interface_entries(3)]
  table_value[OF iconMap_interface_entries(4)]

lemma fold_icons_from:
  assumes "\<And>x d. well_formed d \<Longrightarrow> well_formed (f x d) \<and> icons_from S d (f x d)"
  shows "well_formed d \<Longrightarrow> well_formed (fold f xs d) \<and> icons_from S d (fold f xs d)"
proof (induction xs arbitrary: d)
  case Nil
  then show ?case by (simp add: icons_from_refl)
next
  case (Cons x xs)
  from assms[OF Cons.prems] have w: "well_formed (f x d)" and i: "icons_from S d (f x d)" by simp_all
  from Cons.IH[OF w] i show ?case by (auto intro: icons_from_trans)
qed

lemma forEach_icons_from:
  assumes "\<And>x d. well_formed d \<Longrightarrow> well_formed (snd (f x d)) \<and> icons_from S d (snd (f x d))"
  shows "well_formed d \<Longrightarrow>
         well_formed (snd (forEach f xs d)) \<and> icons_from S d (snd (forEach f xs d))"
proof (induction xs arbitrary: d)
  case Nil
  then show ?case by (simp add: icons_from_refl)
next
  case (Cons x xs)
  obtain e d' where f: "f x d = (e, d')" by (cases "f x d")
  from assms[OF Cons.prems, of x] f have w: "well_formed d'" and i: "icons_from S d d'" by simp_all
  show ?case
  proof (cases e)
    case None
    from Cons.IH[OF w] i None f show ?thesis by (auto intro: icons_from_trans)
  next
    case (Some a)
    with w i f show ?thesis by simp
  qed
qed

lemma labelling_step:
  assumes "well_formed d" and "\<not> hasAttribute j data_lucide d" and "v \<in> S"
  shows "well_formed (setAttribute j data_lucide v d)
         \<and> icons_from S d (setAttribute j data_lucide v d)"
  using assms by (simp add: icons_from_setAttribute well_formed_setAttribute)

lemma nav_icon_name_values:
  assumes "nav_icon_name href text = Inr n" and "truthy n"
  shows "\<exists>v. n = Str v \<and> v \<in> table_identifiers"
proof (cases href)
  case None
  with assms(1) show ?thesis by (simp add: nav_icon_name_null)
next
  case (Some hr)
  with assms(1)
  have n: "n = (case first_match nav_rules hr text of None \<Rightarrow> Str [] | Some c \<Rightarrow> iconMap_get c)"
    by (simp add: nav_icon_name_first_match)
  with assms(2) obtain c where c: "first_match nav_rules hr text = Some c"
    by (cases "first_match nav_rules hr text") auto
  obtain v where "map_of iconMap c = Some v" "iconMap_get c = Str v"
    using nav_category_mapped[OF first_match_nav_rules_category[OF c]] by blast
  with n c show ?thesis by (simp add: table_value)
qed

lemma nav_item_callback_icons:
  assumes "well_formed d"
  shows "well_formed (snd (nav_item_callback h x d))
         \<and> icons_from table_identifiers d (snd (nav_item_callback h x d))"
proof (cases "querySelector (has_class (js ''nav-item-icon'')) x d")
  case None
  then have "snd (nav_item_callback h x d) = d" by (simp add: nav_item_callback_def)
  with assms show ?thesis by (simp add: icons_from_refl)
next
  case (Some ic)
  show ?thesis
  proof (cases "nav_icon_name (getAttribute x (js ''href'') d) (textContent x d)")
    case (Inl e)
    with Some have "snd (nav_item_callback h x d) = d" by (simp add: nav_item_callback_def)
    with assms show ?thesis by (simp add: icons_from_refl)
  next
    case (Inr n)
    show ?thesis
    proof (cases "truthy n \<and> \<not> hasAttribute ic data_lucide d")
      case True
      then obtain v where v: "n = Str v" "v \<in> table_identifiers"
        using nav_icon_name_values[OF Inr] by blast
      have "snd (nav_item_callback h x d) = setAttribute ic data_lucide v d"
        using Some Inr True v by (simp add: nav_item_callback_def)
      with labelling_step[OF assms _ v(2), of ic] True show ?thesis by simp
    next
      case False
      then have "snd (nav_item_callback h x d) = d"
        using Some Inr by (auto simp: nav_item_callback_def)
      with assms show ?thesis by (simp add: icons_from_refl)
    qed
  qed
qed

lemma menu_button_callback_icons:
  assumes "well_formed d"
  shows "well_formed (menu_button_callback b d)
         \<and> icons_from table_identifiers d (menu_button_callback b d)"
proof (cases "querySelector (has_attr data_lucide) b d = None \<and> lookup b d \<noteq> None")
  case True
  then have r: "menu_button_callback b d = set_innerHTML b (icon_markup (js ''menu'')) d"
    by (simp add: menu_button_callback_def)
  from True have ex: "lookup b d \<noteq> None" by simp
  have "icons_from table_identifiers d (set_innerHTML b (icon_markup (js ''menu'')) d)"
    by (rule icons_from_extended[OF set_innerHTML_table(2)[OF assms ex] well_formed_fresh[OF assms]
          table_identifiers_used(8)])
  with set_innerHTML_table(1)[OF assms ex] show ?thesis unfolding r by simp
next
  case False
  then have "menu_button_callback b d = d"
    by (auto simp: menu_button_callback_def set_innerHTML_def)
  with assms show ?thesis by (simp add: icons_from_refl)
qed

lemma send_button_callback_icons:
  assumes "well_formed d"
  shows "well_formed (snd (send_button_callback b d))
         \<and> icons_from table_identifiers d (snd (send_button_callback b d))"
proof (cases "querySelector (sel_and (tag_is (js ''svg'')) (has_class (js ''send-icon''))) b d")
  case None
  with assms show ?thesis by (simp add: send_button_callback_def icons_from_refl)
next
  case (Some svg)
  then have r: "send_button_callback b d = set_outerHTML svg (icon_markup (js ''send'')) d"
    by (simp add: send_button_callback_def)
  let ?d = "snd (set_outerHTML svg (icon_markup (js ''send'')) d)"
  have "icons_from table_identifiers d ?d"
  proof (cases "?d = d")
    case True
    then show ?thesis by (simp add: icons_from_refl)
  next
    case False
    with set_outerHTML_table(2)[OF assms, of svg "js ''send''"]
    have "map_of (attr_table_forest (all_nodes ?d))
            = (map_of (attr_table_forest (all_nodes d)))(next_id d \<mapsto> [(js ''data-lucide'', js ''send'')])"
      by simp
    then show ?thesis
      by (rule icons_from_extended[OF _ well_formed_fresh[OF assms] table_identifiers_used(9)])
  qed
  with set_outerHTML_table(1)[OF assms, of svg "js ''send''"] show ?thesis unfolding r by simp
qed

lemma file_icon_choice_values: "file_icon_choice text \<in> table_identifiers"
  by (simp add: file_icon_choice_def table_identifiers_used)

lemma file_icon_callback_icons:
  assumes "well_formed d"
  shows "well_formed (file_icon_callback h x d)
         \<and> icons_from table_identifiers d (file_icon_callback h x d)"
proof (cases "\<not> hasAttribute x data_lucide d \<and> trim (textContent x d) = []")
  case True
  show ?thesis
  proof (cases "closest (sel_or (has_class (js ''document-item'')) (has_class (js ''metric-card''))) x d")
    case None
    with True have "file_icon_callback h x d = d" by (simp add: file_icon_callback_def)
    with assms show ?thesis by (simp add: icons_from_refl)
  next
    case (Some c)
    from True have g: "\<not> hasAttribute x data_lucide d" "trim (textContent x d) = []" by simp_all
    show ?thesis
      unfolding file_icon_callback_eq[OF g Some]
      by (rule labelling_step[OF assms g(1) file_icon_choice_values])
  qed
next
  case False
  then have "file_icon_callback h x d = d" by (auto simp: file_icon_callback_def)
  with assms show ?thesis by (simp add: icons_from_refl)
qed

lemma metric_icon_callback_eq:
  assumes "\<not> hasAttribute icon data_lucide d" and "trim (textContent icon d) = []"
    and "closest (has_class (js ''metric-card'')) icon d = Some container"
  shows "metric_icon_callback h icon d =
           setAttribute icon data_lucide
             (metric_icon_choice (toLowerCase h (textContent container d))) d"
  using assms by (simp add: metric_icon_callback_def metric_icon_choice_def)

lemma metric_icon_choice_values:
  "metric_icon_choice text
     \<in> {js ''message-circle'', js ''users'', js ''book'', js ''clock'', js ''bar-chart-3''}"
  by (simp add: metric_icon_choice_def)

lemma metric_icon_callback_icons:
  assumes "well_formed d"
  shows "well_formed (metric_icon_callback h x d)
         \<and> icons_from {js ''message-circle'', js ''users'', js ''book'', js ''clock'', js ''bar-chart-3''}
              d (metric_icon_callback h x d)"
proof (cases "\<not> hasAttribute x data_lucide d \<and> trim (textContent x d) = []")
  case True
  show ?thesis
  proof (cases "closest (has_class (js ''metric-card'')) x d")
    case None
    with True have "metric_icon_callback h x d = d" by (simp add: metric_icon_callback_def)
    with assms show ?thesis by (simp add: icons_from_refl)
  next
    case (Some c)
    from True have g: "\<not> hasAttribute x data_lucide d" "trim (textContent x d) = []" by simp_all
    show ?thesis
      unfolding metric_icon_callback_eq[OF g Some]
      by (rule labelling_step[OF assms g(1) metric_icon_choice_values])
  qed
next
  case False
  then have "metric_icon_callback h x d = d" by (auto simp: metric_icon_callback_def)
  with assms show ?thesis by (simp add: icons_from_refl)
qed

lemma applyNavigationIcons_icons:
  "well_formed d \<Longrightarrow> well_formed (snd (applyNavigationIcons h d))
     \<and> icons_from table_identifiers d (snd (applyNavigationIcons h d))"
  unfolding applyNavigationIcons_def by (rule forEach_icons_from) (rule nav_item_callback_icons)

lemma menu_buttons_loop_icons:
  "well_formed d \<Longrightarrow> well_formed (menu_buttons_loop d)
     \<and> icons_from table_identifiers d (menu_buttons_loop d)"
  unfolding menu_buttons_loop_def by (rule fold_icons_from) (rule menu_button_callback_icons)

lemma send_buttons_loop_icons:
  "well_formed d \<Longrightarrow> well_formed (snd (send_buttons_loop d))
     \<and> icons_from table_identifiers d (snd (send_buttons_loop d))"
  unfolding send_buttons_loop_def by (rule forEach_icons_from) (rule send_button_callback_icons)

lemma file_icons_loop_icons:
  "well_formed d \<Longrightarrow> well_formed (file_icons_loop h d)
     \<and> icons_from table_identifiers d (file_icons_loop h d)"
  unfolding file_icons_loop_def by (rule fold_icons_from) (rule file_icon_callback_icons)

lemma metric_icons_loop_icons:
  "well_formed d \<Longrightarrow> well_formed (metric_icons_loop h d)
     \<and> icons_from {js ''message-circle'', js ''users'', js ''book'', js ''clock'', js ''bar-chart-3''}
          d (metric_icons_loop h d)"
  unfolding metric_icons_loop_def by (rule fold_icons_from) (rule metric_icon_callback_icons)

lemma metric_identifiers:
  "{js ''message-circle'', js ''users'', js ''book'', js ''clock'', js ''bar-chart-3''}
     \<subseteq> table_identifiers \<union> {js ''message-circle'', js ''book''}"
  using table_identifiers_used(4,10,11) by simp

lemma applyInterfaceIcons_icons:
  assumes "well_formed d"
  shows "well_formed (snd (applyInterfaceIcons h d))
         \<and> icons_from (table_identifiers \<union> {js ''message-circle'', js ''book''}) d
              (snd (applyInterfaceIcons h d))"
proof -
  let ?T = "table_identifiers \<union> {js ''message-circle'', js ''book''}"
  let ?d1 = "menu_buttons_loop d"
  obtain e d2 where s: "send_buttons_loop ?d1 = (e, d2)" by (cases "send_buttons_loop ?d1")
  have w1: "well_formed ?d1" and i1: "icons_from ?T d ?d1"
    using menu_buttons_loop_icons[OF assms] by (auto intro: icons_from_mono)
  have w2: "well_formed d2" and i2: "icons_from ?T ?d1 d2"
    using send_buttons_loop_icons[OF w1] s by (auto intro: icons_from_mono)
  have w3: "well_formed (file_icons_loop h d2)" and i3: "icons_from ?T d2 (file_icons_loop h d2)"
    using file_icons_loop_icons[OF w2] by (auto intro: icons_from_mono)
  have w4: "well_formed (metric_icons_loop h (file_icons_loop h d2))"
    and i4: "icons_from ?T (file_icons_loop h d2) (metric_icons_loop h (file_icons_loop h d2))"
    using metric_icons_loop_icons[OF w3] metric_identifiers by (auto intro: icons_from_mono)
  have i12: "icons_from ?T d d2" using i1 i2 by (rule icons_from_trans)
  have i14: "icons_from ?T d (metric_icons_loop h (file_icons_loop h d2))"
    using i12 i3 i4 by (blast intro: icons_from_trans)
  show ?thesis
  proof (cases e)
    case None
    with s w4 i14 show ?thesis by (simp add: applyInterfaceIcons_def)
  next
    case (Some a)
    with s w2 i12 show ?thesis by (simp add: applyInterfaceIcons_def)
  qed
qed

lemma passes_icons:
  assumes "well_formed d" and "lucide h = None"
  shows "icons_from (table_identifiers \<union> {js ''message-circle'', js ''book''}) d
           (snd (applyIcons h d))"
proof -
  let ?T = "table_identifiers \<union> {js ''message-circle'', js ''book''}"
  obtain e d1 where n: "applyNavigationIcons h d = (e, d1)" by (cases "applyNavigationIcons h d")
  have w1: "well_formed d1" and i1: "icons_from ?T d d1"
    using applyNavigationIcons_icons[OF assms(1), of h] n by (auto intro: icons_from_mono)
  obtain e' d2 where a: "applyInterfaceIcons h d1 = (e', d2)" by (cases "applyInterfaceIcons h d1")
  have i2: "icons_from ?T d1 d2" using applyInterfaceIcons_icons[OF w1, of h] a by simp
  have i12: "icons_from ?T d d2" using i1 i2 by (rule icons_from_trans)
  show ?thesis
    using n a i1 i12 assms(2)
    by (cases e; cases e') (simp_all add: applyIcons_def createIcons_if_defined_def)
qed

lemma getAttribute_exists: "getAttribute e k d = Some v \<Longrightarrow> lookup e d \<noteq> None"
  by (simp add: getAttribute_def split: option.splits)

section \<open>Icon attributes that are already there\<close>

text \<open>
  C1, as the code has it. In a well-formed store, an element that carries a
  \<^verbatim>\<open>data-lucide\<close> attribute carries the same value after the navigation pass, after the
  interface pass, and after \<open>applyIcons\<close> up to the render call (the element may have left
  the document: the send-button loop replaces an \<^verbatim>\<open>svg.send-icon\<close> by new markup). With a
  key of the lookup table, \<open>addIcon\<close> sets the attribute to the value the table holds, also
  on an element that has one.
\<close>

theorem passes_keep_icon_attribute:
  assumes "well_formed d" and "getAttribute e data_lucide d = Some v"
  shows "getAttribute e data_lucide (snd (applyNavigationIcons h d)) = Some v
         \<and> getAttribute e data_lucide (snd (applyInterfaceIcons h d)) = Some v
         \<and> (lucide h = None \<longrightarrow> getAttribute e data_lucide (snd (applyIcons h d)) = Some v)
         \<and> (\<forall>name w. map_of iconMap name = Some w \<longrightarrow>
               addIcon h e name d = createIcons_if_defined h (setAttribute e data_lucide w d)
               \<and> getAttribute e data_lucide (setAttribute e data_lucide w d) = Some w)"
proof -
  have ex: "lookup e d \<noteq> None" using assms(2) by (rule getAttribute_exists)
  have a: "getAttribute e data_lucide (snd (applyNavigationIcons h d)) = Some v"
    using applyNavigationIcons_icons[OF assms(1), of h] assms(2) by (simp add: icons_from_def)
  have b: "getAttribute e data_lucide (snd (applyInterfaceIcons h d)) = Some v"
    using applyInterfaceIcons_icons[OF assms(1), of h] assms(2) by (simp add: icons_from_def)
  have c: "getAttribute e data_lucide (snd (applyIcons h d)) = Some v" if "lucide h = None"
    using passes_icons[OF assms(1) that] assms(2) by (simp add: icons_from_def)
  show ?thesis using a b c ex by (simp add: addIcon_known getAttribute_setAttribute)
qed

lemma prelabelled_doc_well_formed: "well_formed prelabelled_doc"
  by (simp add: well_formed_def all_nodes_def prelabelled_doc_def)

lemma prelabelled_doc_icon: "getAttribute 6 data_lucide prelabelled_doc = Some (js ''star'')"
  by (simp add: getAttribute_def lookup_def all_nodes_def prelabelled_doc_def data_lucide_def)

theorem passes_keep_icon_attribute_witness:
  "getAttribute 6 data_lucide prelabelled_doc = Some (js ''star'')
   \<and> getAttribute 6 data_lucide (snd (applyNavigationIcons strict_host prelabelled_doc)) = Some (js ''star'')
   \<and> getAttribute 6 data_lucide (snd (applyInterfaceIcons strict_host prelabelled_doc)) = Some (js ''star'')
   \<and> getAttribute 6 data_lucide (snd (applyIcons strict_host prelabelled_doc)) = Some (js ''star'')
   \<and> getAttribute 6 data_lucide (setAttribute 6 data_lucide (js ''check-circle'') prelabelled_doc)
       = Some (js ''check-circle'')"
proof -
  have key: "map_of iconMap (js ''success'') = Some (js ''check-circle'')"
    by (simp add: iconMap_def)
  have none: "lucide strict_host = None" by (simp add: strict_host_def)
  from passes_keep_icon_attribute [OF prelabelled_doc_well_formed prelabelled_doc_icon, of strict_host]
    key none prelabelled_doc_icon
  show ?thesis by simp
qed

text \<open>
  C1 as stated fails for \<open>addIcon\<close>: on an element whose icon is \<^verbatim>\<open>home\<close>, the call with
  the key \<^verbatim>\<open>success\<close> changes the attribute to \<^verbatim>\<open>check-circle\<close>.
\<close>

theorem addIcon_overwrites_icon_attribute:
  "getAttribute 1 data_lucide labelled_doc = Some (js ''home'')
   \<and> map_of iconMap (js ''success'') = Some (js ''check-circle'')
   \<and> getAttribute 1 data_lucide (addIcon strict_host 1 (js ''success'') labelled_doc)
       = Some (js ''check-circle'')"
proof -
  have a: "getAttribute 1 data_lucide labelled_doc = Some (js ''home'')"
    by (simp add: getAttribute_def lookup_def all_nodes_def labelled_doc_def data_lucide_def)
  then have ex: "lookup 1 labelled_doc \<noteq> None" by (rule getAttribute_exists)
  have c: "getAttribute 1 data_lucide (addIcon strict_host 1 (js ''success'') labelled_doc)
             = Some (js ''check-circle'')"
    using ex by (simp add: addIcon_success createIcons_if_defined_def strict_host_def
        getAttribute_setAttribute)
  from a c show ?thesis by (simp add: iconMap_def)
qed

section \<open>Where the assigned identifiers come from\<close>

text \<open>
  C8, as the code has it. In a well-formed store, an icon attribute that is in the document
  after the navigation pass, the menu-button loop, the send-button loop or the file-icon
  loop was on the same element before or has a value of the lookup table. After the
  metric-icon loop it was there before or is one of five identifiers written in the code;
  three of them are values of the table, \<^verbatim>\<open>message-circle\<close> and \<^verbatim>\<open>book\<close> are not.
\<close>

theorem assigned_identifiers:
  assumes "well_formed d"
  shows "(\<forall>e v. getAttribute e data_lucide (snd (applyNavigationIcons h d)) = Some v \<longrightarrow>
            getAttribute e data_lucide d = Some v \<or> v \<in> snd ` set iconMap)
       \<and> (\<forall>e v. getAttribute e data_lucide (menu_buttons_loop d) = Some v \<longrightarrow>
            getAttribute e data_lucide d = Some v \<or> v \<in> snd ` set iconMap)
       \<and> (\<forall>e v. getAttribute e data_lucide (snd (send_buttons_loop d)) = Some v \<longrightarrow>
            getAttribute e data_lucide d = Some v \<or> v \<in> snd ` set iconMap)
       \<and> (\<forall>e v. getAttribute e data_lucide (file_icons_loop h d) = Some v \<longrightarrow>
            getAttribute e data_lucide d = Some v \<or> v \<in> snd ` set iconMap)
       \<and> (\<forall>e v. getAttribute e data_lucide (metric_icons_loop h d) = Some v \<longrightarrow>
            getAttribute e data_lucide d = Some v
            \<or> v \<in> {js ''message-circle'', js ''users'', js ''book'', js ''clock'', js ''bar-chart-3''})
       \<and> {js ''users'', js ''clock'', js ''bar-chart-3''} \<subseteq> snd ` set iconMap
       \<and> js ''message-circle'' \<notin> snd ` set iconMap \<and> js ''book'' \<notin> snd ` set iconMap
       \<and> (lucide h = None \<longrightarrow>
            (\<forall>e v. getAttribute e data_lucide (snd (applyIcons h d)) = Some v \<longrightarrow>
               getAttribute e data_lucide d = Some v
               \<or> v \<in> snd ` set iconMap \<union> {js ''message-circle'', js ''book''}))"
proof -
  have out: "js ''message-circle'' \<notin> snd ` set iconMap" "js ''book'' \<notin> snd ` set iconMap"
    by (simp_all add: iconMap_def)
  have "{js ''users'', js ''clock'', js ''bar-chart-3''} \<subseteq> table_identifiers"
    using table_identifiers_used(4,10,11) by simp
  then have inn: "{js ''users'', js ''clock'', js ''bar-chart-3''} \<subseteq> snd ` set iconMap"
    by (simp only: table_identifiers_def)
  have new: "icons_from S d d' \<Longrightarrow>
             \<forall>e v. getAttribute e data_lucide d' = Some v \<longrightarrow>
                   getAttribute e data_lucide d = Some v \<or> v \<in> S" for S d'
    by (simp add: icons_from_def)
  have a: "\<forall>e v. getAttribute e data_lucide (snd (applyNavigationIcons h d)) = Some v \<longrightarrow>
            getAttribute e data_lucide d = Some v \<or> v \<in> snd ` set iconMap"
    using applyNavigationIcons_icons[OF assms, of h] new unfolding table_identifiers_def by blast
  have b: "\<forall>e v. getAttribute e data_lucide (menu_buttons_loop d) = Some v \<longrightarrow>
            getAttribute e data_lucide d = Some v \<or> v \<in> snd ` set iconMap"
    using menu_buttons_loop_icons[OF assms] new unfolding table_identifiers_def by blast
  have c: "\<forall>e v. getAttribute e data_lucide (snd (send_buttons_loop d)) = Some v \<longrightarrow>
            getAttribute e data_lucide d = Some v \<or> v \<in> snd ` set iconMap"
    using send_buttons_loop_icons[OF assms] new unfolding table_identifiers_def by blast
  have f: "\<forall>e v. getAttribute e data_lucide (file_icons_loop h d) = Some v \<longrightarrow>
            getAttribute e data_lucide d = Some v \<or> v \<in> snd ` set iconMap"
    using file_icons_loop_icons[OF assms, of h] new unfolding table_identifiers_def by blast
  have m: "\<forall>e v. getAttribute e data_lucide (metric_icons_loop h d) = Some v \<longrightarrow>
            getAttribute e data_lucide d = Some v
            \<or> v \<in> {js ''message-circle'', js ''users'', js ''book'', js ''clock'', js ''bar-chart-3''}"
    using metric_icons_loop_icons[OF assms, of h] new by blast
  have p: "\<forall>e v. getAttribute e data_lucide (snd (applyIcons h d)) = Some v \<longrightarrow>
               getAttribute e data_lucide d = Some v
               \<or> v \<in> snd ` set iconMap \<union> {js ''message-circle'', js ''book''}"
    if "lucide h = None"
    using passes_icons[OF assms that] new unfolding table_identifiers_def by blast
  from a b c f m p out inn show ?thesis by blast
qed

lemma metric_doc_well_formed: "well_formed metric_doc"
  by (simp add: well_formed_def all_nodes_def metric_doc_def)

lemma metric_doc_run:
  "applyIcons strict_host metric_doc
     = (None, setAttribute 6 data_lucide (js ''message-circle'') metric_doc)"
  by (simp add: applyIcons_def applyNavigationIcons_def applyInterfaceIcons_def
        menu_buttons_loop_def send_buttons_loop_def file_icons_loop_def metric_icons_loop_def
        metric_icon_callback_def trim_def textContent_def closest_def hasAttribute_def
        getAttribute_def lookup_def all_nodes_def
        querySelectorAll_def metric_doc_def has_class_def sel_or_def has_id_def
        createIcons_if_defined_def strict_host_def js_def ascii_whitespace_def data_lucide_def
        lower_unit_def)

theorem assigned_identifiers_witness:
  "getAttribute 6 data_lucide metric_doc = None
   \<and> getAttribute 6 data_lucide (snd (applyIcons strict_host metric_doc)) = Some (js ''message-circle'')
   \<and> js ''message-circle'' \<in> snd ` set iconMap \<union> {js ''message-circle'', js ''book''}
   \<and> js ''bar-chart-3'' \<in> snd ` set iconMap"
proof -
  have none: "lucide strict_host = None" by (simp add: strict_host_def)
  have a: "getAttribute 6 data_lucide metric_doc = None"
    by (simp add: getAttribute_def lookup_def all_nodes_def metric_doc_def data_lucide_def)
  have ex: "lookup 6 metric_doc \<noteq> None"
    by (simp add: lookup_def all_nodes_def metric_doc_def)
  have b: "getAttribute 6 data_lucide (snd (applyIcons strict_host metric_doc))
             = Some (js ''message-circle'')"
    using ex by (simp add: metric_doc_run getAttribute_setAttribute)
  from assigned_identifiers [OF metric_doc_well_formed, of strict_host] none a b
  show ?thesis by auto
qed

text \<open>
  C8 as stated fails for the metric-icon loop: for a card whose text holds \<^verbatim>\<open>pergunta\<close>
  the loop assigns \<^verbatim>\<open>message-circle\<close>, which is no value of the lookup table.
\<close>

theorem metric_icon_outside_table:
  "getAttribute 6 data_lucide metric_doc = None
   \<and> getAttribute 6 data_lucide (snd (applyIcons strict_host metric_doc)) = Some (js ''message-circle'')
   \<and> js ''message-circle'' \<notin> snd ` set iconMap"
proof -
  have a: "getAttribute 6 data_lucide metric_doc = None"
    by (simp add: getAttribute_def lookup_def all_nodes_def metric_doc_def data_lucide_def)
  have ex: "lookup 6 metric_doc \<noteq> None"
    by (simp add: lookup_def all_nodes_def metric_doc_def)
  have b: "getAttribute 6 data_lucide (snd (applyIcons strict_host metric_doc))
             = Some (js ''message-circle'')"
    using ex by (simp add: metric_doc_run getAttribute_setAttribute)
  have c: "js ''message-circle'' \<notin> snd ` set iconMap" by (simp add: iconMap_def)
  from a b c show ?thesis by simp
qed

section \<open>A second run\<close>

lemma fold_id: "(\<And>x. x \<in> set xs \<Longrightarrow> f x d = d) \<Longrightarrow> fold f xs d = d"
  by (induction xs) auto

lemma forEach_id: "(\<And>x. x \<in> set xs \<Longrightarrow> f x d = (None, d)) \<Longrightarrow> forEach f xs d = (None, d)"
  by (induction xs) auto

lemma forEach_settles:
  assumes step: "\<And>x d. labels_added d (snd (f x d))"
    and settle: "\<And>x d d'. f x d = (None, d') \<Longrightarrow> Q x d'"
    and mono: "\<And>x d d'. Q x d \<Longrightarrow> labels_added d d' \<Longrightarrow> Q x d'"
  shows "forEach f xs d = (None, d') \<Longrightarrow> \<forall>x \<in> set xs. Q x d'"
proof (induction xs arbitrary: d)
  case Nil
  then show ?case by simp
next
  case (Cons x xs)
  obtain e d1 where f: "f x d = (e, d1)" by (cases "f x d")
  with Cons.prems have e: "e = None" and rest: "forEach f xs d1 = (None, d')"
    by (cases e; simp)+
  have "labels_added d1 (snd (forEach f xs d1))" using step by (rule forEach_labels)
  then have la: "labels_added d1 d'" using rest by simp
  have "Q x d1" using f e settle by simp
  then have "Q x d'" using la by (rule mono)
  with Cons.IH[OF rest] show ?case by simp
qed

lemma fold_settles:
  assumes step: "\<And>x d. labels_added d (f x d)"
    and settle: "\<And>x d. Q x (f x d)"
    and mono: "\<And>x d d'. Q x d \<Longrightarrow> labels_added d d' \<Longrightarrow> Q x d'"
  shows "\<forall>x \<in> set xs. Q x (fold f xs d)"
proof (induction xs arbitrary: d)
  case Nil
  then show ?case by simp
next
  case (Cons x xs)
  have "labels_added (f x d) (fold f xs (f x d))" using step by (rule fold_labels)
  with settle[of x d] have "Q x (fold f xs (f x d))" by (rule mono)
  with Cons.IH[of "f x d"] show ?case by simp
qed

lemma stable_has_id: "stable (has_id x) data_lucide"
  by (simp add: stable_def has_id_def update_conv' data_lucide_def)

lemma stable_tag_is: "stable (tag_is t) k"
  by (simp add: stable_def tag_is_def)

lemma stable_sel_and: "stable p k \<Longrightarrow> stable q k \<Longrightarrow> stable (sel_and p q) k"
  by (simp add: stable_def sel_and_def)

lemma matching_has_attr_mono:
  "set (matching (has_attr k) n) \<subseteq> set (matching (has_attr k) (set_attr j k v n))"
  "set (matching_forest (has_attr k) ns) \<subseteq> set (matching_forest (has_attr k) (set_attr_forest j k v ns))"
  by (induction n and ns rule: node_ids_forest_ids.induct)
     (auto simp: has_attr_def update_conv')

lemma la_icon_descendant:
  "labels_added d d' \<Longrightarrow> querySelector (has_attr data_lucide) b d \<noteq> None \<Longrightarrow>
   querySelector (has_attr data_lucide) b d' \<noteq> None"
proof (induction rule: labels_added.induct)
  case (same d)
  then show ?case by simp
next
  case (label d d' j v)
  then obtain n where n: "lookup b d' = Some n"
    and m: "matching_forest (has_attr data_lucide) (children_of n) \<noteq> []"
    by (auto simp: querySelector_def split: option.splits list.splits)
  from m matching_has_attr_mono(2)[of data_lucide "children_of n" j v]
  have "matching_forest (has_attr data_lucide) (set_attr_forest j data_lucide v (children_of n)) \<noteq> []"
    by (cases "matching_forest (has_attr data_lucide) (children_of n)") auto
  with n show ?case
    by (simp add: querySelector_def lookup_setAttribute children_of_set_attr split: list.splits)
qed

lemma nav_quiet_callback: "nav_quiet x d \<Longrightarrow> nav_item_callback h x d = (None, d)"
  by (auto simp: nav_quiet_def nav_item_callback_def split: option.splits sum.splits)

lemma nav_callback_settles:
  assumes "nav_item_callback h x d = (None, d')"
  shows "nav_quiet x d'"
proof (cases "querySelector (has_class (js ''nav-item-icon'')) x d")
  case None
  with assms have "d' = d" by (simp add: nav_item_callback_def)
  with None show ?thesis by (simp add: nav_quiet_def)
next
  case (Some ic)
  have ex: "lookup ic d \<noteq> None" using Some by (rule querySelector_exists)
  show ?thesis
  proof (cases "hasAttribute ic data_lucide d")
    case True
    with assms Some have "d' = d" by (simp add: nav_item_callback_def)
    with Some True show ?thesis by (simp add: nav_quiet_def)
  next
    case False
    show ?thesis
    proof (cases "nav_icon_name (getAttribute x (js ''href'') d) (textContent x d)")
      case (Inl e)
      with assms Some False show ?thesis by (simp add: nav_item_callback_def)
    next
      case (Inr n)
      show ?thesis
      proof (cases "truthy n")
        case True
        with assms Some False Inr
        have d': "d' = setAttribute ic data_lucide (to_string h n) d"
          by (simp add: nav_item_callback_def split: if_splits)
        have "querySelector (has_class (js ''nav-item-icon'')) x d' = Some ic"
          using Some by (simp add: d' querySelector_setAttribute stable_has_class)
        moreover have "hasAttribute ic data_lucide d'"
          using ex by (simp add: d' hasAttribute_def getAttribute_setAttribute)
        ultimately show ?thesis by (simp add: nav_quiet_def)
      next
        case no: False
        with assms Some False Inr have "d' = d" by (simp add: nav_item_callback_def)
        with Some Inr no show ?thesis by (simp add: nav_quiet_def)
      qed
    qed
  qed
qed

lemma href_not_icon: "js ''href'' \<noteq> data_lucide"
  by (simp add: data_lucide_def)

lemma nav_quiet_mono:
  assumes "nav_quiet x d" and la: "labels_added d d'"
  shows "nav_quiet x d'"
  using assms(1)
  by (auto simp: nav_quiet_def la_querySelector[OF la stable_has_class] la_text[OF la]
      la_attr_other[OF la href_not_icon] la_has[OF la] split: option.splits sum.splits)

lemma file_quiet_callback: "file_quiet x d \<Longrightarrow> file_icon_callback h x d = d"
  by (auto simp: file_quiet_def file_icon_callback_def)

lemma file_callback_settles: "file_quiet x (file_icon_callback h x d)"
proof (cases "file_quiet x d")
  case True
  then show ?thesis by (simp add: file_quiet_callback)
next
  case False
  then obtain c where g: "\<not> hasAttribute x data_lucide d" "trim (textContent x d) = []"
    "closest (sel_or (has_class (js ''document-item'')) (has_class (js ''metric-card''))) x d = Some c"
    by (auto simp: file_quiet_def)
  have ex: "lookup x d \<noteq> None" using g(3) by (rule closest_exists)
  show ?thesis
    unfolding file_icon_callback_eq[OF g]
    using ex by (simp add: file_quiet_def hasAttribute_def getAttribute_setAttribute)
qed

lemma file_quiet_mono: "file_quiet x d \<Longrightarrow> labels_added d d' \<Longrightarrow> file_quiet x d'"
  by (auto simp: file_quiet_def la_text la_closest[OF _ stable_container] la_has)

lemma metric_quiet_callback: "metric_quiet x d \<Longrightarrow> metric_icon_callback h x d = d"
  by (auto simp: metric_quiet_def metric_icon_callback_def)

lemma metric_callback_settles: "metric_quiet x (metric_icon_callback h x d)"
proof (cases "metric_quiet x d")
  case True
  then show ?thesis by (simp add: metric_quiet_callback)
next
  case False
  then obtain c where g: "\<not> hasAttribute x data_lucide d" "trim (textContent x d) = []"
    "closest (has_class (js ''metric-card'')) x d = Some c"
    by (auto simp: metric_quiet_def)
  have ex: "lookup x d \<noteq> None" using g(3) by (rule closest_exists)
  show ?thesis
    unfolding metric_icon_callback_eq[OF g]
    using ex by (simp add: metric_quiet_def hasAttribute_def getAttribute_setAttribute)
qed

lemma metric_quiet_mono: "metric_quiet x d \<Longrightarrow> labels_added d d' \<Longrightarrow> metric_quiet x d'"
  by (auto simp: metric_quiet_def la_text la_closest[OF _ stable_has_class] la_has)

lemma nav_pass_quiet:
  assumes "\<forall>x \<in> set (querySelectorAll (has_class (js ''nav-item'')) d). nav_quiet x d"
  shows "applyNavigationIcons h d = (None, d)"
  unfolding applyNavigationIcons_def using assms by (intro forEach_id nav_quiet_callback) simp

lemma nav_pass_settles:
  assumes "applyNavigationIcons h d = (None, d')"
  shows "\<forall>x \<in> set (querySelectorAll (has_class (js ''nav-item'')) d). nav_quiet x d'"
  using assms unfolding applyNavigationIcons_def
  by (rule forEach_settles[rotated 3, OF _ nav_item_callback_labels nav_callback_settles
        nav_quiet_mono])

lemma file_loop_quiet:
  assumes "\<forall>x \<in> set (querySelectorAll (has_class (js ''file-icon'')) d). file_quiet x d"
  shows "file_icons_loop h d = d"
  unfolding file_icons_loop_def using assms by (intro fold_id file_quiet_callback) simp

lemma file_loop_settles:
  "\<forall>x \<in> set (querySelectorAll (has_class (js ''file-icon'')) d). file_quiet x (file_icons_loop h d)"
  unfolding file_icons_loop_def
  by (rule fold_settles[where f = "file_icon_callback h" and Q = file_quiet,
        OF file_icon_callback_labels file_callback_settles file_quiet_mono])

lemma metric_loop_quiet:
  assumes "\<forall>x \<in> set (querySelectorAll (has_class (js ''metric-icon'')) d). metric_quiet x d"
  shows "metric_icons_loop h d = d"
  unfolding metric_icons_loop_def using assms by (intro fold_id metric_quiet_callback) simp

lemma metric_loop_settles:
  "\<forall>x \<in> set (querySelectorAll (has_class (js ''metric-icon'')) d).
     metric_quiet x (metric_icons_loop h d)"
  unfolding metric_icons_loop_def
  by (rule fold_settles[where f = "metric_icon_callback h" and Q = metric_quiet,
        OF metric_icon_callback_labels metric_callback_settles metric_quiet_mono])

lemma stable_send_button:
  "stable (sel_or (has_id (js ''sendButton'')) (has_class (js ''send-button''))) data_lucide"
  by (intro stable_sel_or stable_has_id stable_has_class)

lemma stable_send_icon:
  "stable (sel_and (tag_is (js ''svg'')) (has_class (js ''send-icon''))) data_lucide"
  by (intro stable_sel_and stable_tag_is stable_has_class)

section \<open>Two runs on a send button with two icons\<close>

lemma createIcons_absent [simp]: "createIcons_if_defined strict_host d = d"
  by (simp add: createIcons_if_defined_def strict_host_def)

lemma two_svg_first_run: "applyIcons strict_host two_svg_doc = (None, two_svg_once)"
  by (simp add: applyIcons_def applyNavigationIcons_def applyInterfaceIcons_def
      menu_buttons_loop_def send_buttons_loop_def file_icons_loop_def metric_icons_loop_def
      send_button_callback_def set_outerHTML_def icon_markup_def
      querySelectorAll_def querySelector_def lookup_def all_nodes_def
      two_svg_doc_def two_svg_once_def has_class_def has_id_def sel_or_def sel_and_def tag_is_def
      js_def ascii_whitespace_def)

lemma two_svg_second_run: "applyIcons strict_host two_svg_once = (None, two_svg_twice)"
  by (simp add: applyIcons_def applyNavigationIcons_def applyInterfaceIcons_def
      menu_buttons_loop_def send_buttons_loop_def file_icons_loop_def metric_icons_loop_def
      send_button_callback_def set_outerHTML_def icon_markup_def
      querySelectorAll_def querySelector_def lookup_def all_nodes_def
      two_svg_once_def two_svg_twice_def has_class_def has_id_def sel_or_def sel_and_def tag_is_def
      js_def ascii_whitespace_def)

lemma two_svg_runs_differ: "two_svg_twice \<noteq> two_svg_once"
proof -
  have "document two_svg_twice \<noteq> document two_svg_once"
    by (simp add: two_svg_twice_def two_svg_once_def)
  then show ?thesis by auto
qed

section \<open>init\<close>

lemma fire_after_registration:
  "tree (fire_DOMContentLoaded h
           (p\<lparr>listeners := listeners p @ [(js ''DOMContentLoaded'', Call_applyIcons)]\<rparr>))
     = snd (applyIcons h (tree (fire_DOMContentLoaded h p)))"
  by (simp add: fire_DOMContentLoaded_def)

text \<open>
  C7, as the code has it. Called while the readiness is not \<^verbatim>\<open>loading\<close>, \<open>init\<close> is
  \<open>applyIcons\<close> on the document, at once: its result and its exception are those of
  \<open>applyIcons\<close>, and the listeners are as before. Called while the document is loading,
  \<open>init\<close> leaves the document as it is and appends one listener for \<^verbatim>\<open>DOMContentLoaded\<close>.
  When the event fires, the listeners registered before run first and the new one then
  runs \<open>applyIcons\<close> on the document they leave. The listener is added without the
  \<^verbatim>\<open>once\<close> option: it is still registered after the event.
\<close>

theorem init_by_readiness:
  "(readyState p \<noteq> Loading \<longrightarrow>
      init h p = (fst (applyIcons h (tree p)), p\<lparr>tree := snd (applyIcons h (tree p))\<rparr>)
      \<and> listeners (snd (init h p)) = listeners p)
   \<and> (readyState p = Loading \<longrightarrow>
      init h p = (None, p\<lparr>listeners := listeners p @ [(js ''DOMContentLoaded'', Call_applyIcons)]\<rparr>)
      \<and> tree (snd (init h p)) = tree p
      \<and> tree (fire_DOMContentLoaded h (snd (init h p)))
          = snd (applyIcons h (tree (fire_DOMContentLoaded h p)))
      \<and> listeners (fire_DOMContentLoaded h (snd (init h p)))
          = listeners p @ [(js ''DOMContentLoaded'', Call_applyIcons)])"
proof (intro conjI impI)
  assume ready: "readyState p \<noteq> Loading"
  then show "init h p = (fst (applyIcons h (tree p)), p\<lparr>tree := snd (applyIcons h (tree p))\<rparr>)"
    by (simp add: init_def split: prod.splits)
  then show "listeners (snd (init h p)) = listeners p" by simp
next
  assume loading: "readyState p = Loading"
  then show reg: "init h p
      = (None, p\<lparr>listeners := listeners p @ [(js ''DOMContentLoaded'', Call_applyIcons)]\<rparr>)"
    by (simp add: init_def)
  then show "tree (snd (init h p)) = tree p" by simp
  from reg show "tree (fire_DOMContentLoaded h (snd (init h p)))
          = snd (applyIcons h (tree (fire_DOMContentLoaded h p)))"
    by (simp add: fire_after_registration)
  from reg show "listeners (fire_DOMContentLoaded h (snd (init h p)))
          = listeners p @ [(js ''DOMContentLoaded'', Call_applyIcons)]"
    by (simp add: fire_DOMContentLoaded_def)
qed

theorem init_by_readiness_witness:
  "readyState ready_metric_page \<noteq> Loading
   \<and> getAttribute 6 data_lucide (tree ready_metric_page) = None
   \<and> fst (init strict_host ready_metric_page) = None
   \<and> getAttribute 6 data_lucide (tree (snd (init strict_host ready_metric_page)))
       = Some (js ''message-circle'')
   \<and> listeners (snd (init strict_host ready_metric_page)) = []
   \<and> readyState loading_metric_page = Loading
   \<and> listeners (snd (init strict_host loading_metric_page))
       = [(js ''DOMContentLoaded'', Call_applyIcons)]
   \<and> getAttribute 6 data_lucide (tree (snd (init strict_host loading_metric_page))) = None
   \<and> getAttribute 6 data_lucide
        (tree (fire_DOMContentLoaded strict_host (snd (init strict_host loading_metric_page))))
       = Some (js ''message-circle'')"
proof -
  have a: "getAttribute 6 data_lucide metric_doc = None"
    by (simp add: getAttribute_def lookup_def all_nodes_def metric_doc_def data_lucide_def)
  have ex: "lookup 6 metric_doc \<noteq> None"
    by (simp add: lookup_def all_nodes_def metric_doc_def)
  have b: "getAttribute 6 data_lucide (snd (applyIcons strict_host metric_doc))
             = Some (js ''message-circle'')"
    using ex by (simp add: metric_doc_run getAttribute_setAttribute)
  have f: "tree (fire_DOMContentLoaded strict_host loading_metric_page) = metric_doc"
    by (simp add: fire_DOMContentLoaded_def loading_metric_page_def)
  have r: "readyState ready_metric_page \<noteq> Loading"
    by (simp add: ready_metric_page_def)
  have l: "readyState loading_metric_page = Loading"
    by (simp add: loading_metric_page_def)
  have tr: "tree ready_metric_page = metric_doc"
    by (simp add: ready_metric_page_def)
  have tl: "tree loading_metric_page = metric_doc" "listeners loading_metric_page = []"
    by (simp_all add: loading_metric_page_def)
  have lr: "listeners ready_metric_page = []"
    by (simp add: ready_metric_page_def)
  note R = init_by_readiness [of ready_metric_page strict_host, THEN conjunct1, rule_format, OF r]
  note L = init_by_readiness [of loading_metric_page strict_host, THEN conjunct2, rule_format, OF l]
  have r1: "init strict_host ready_metric_page
        = (fst (applyIcons strict_host (tree ready_metric_page)),
           ready_metric_page\<lparr>tree := snd (applyIcons strict_host (tree ready_metric_page))\<rparr>)"
    by (rule R [THEN conjunct1])
  have r2: "listeners (snd (init strict_host ready_metric_page)) = listeners ready_metric_page"
    by (rule R [THEN conjunct2])
  have l1: "tree (snd (init strict_host loading_metric_page)) = tree loading_metric_page"
    by (rule L [THEN conjunct2, THEN conjunct1])
  have l2: "tree (fire_DOMContentLoaded strict_host (snd (init strict_host loading_metric_page)))
          = snd (applyIcons strict_host (tree (fire_DOMContentLoaded strict_host loading_metric_page)))"
    by (rule L [THEN conjunct2, THEN conjunct2, THEN conjunct1])
  have l3: "listeners (snd (init strict_host loading_metric_page))
          = listeners loading_metric_page @ [(js ''DOMContentLoaded'', Call_applyIcons)]"
    unfolding L [THEN conjunct1] by simp
  show ?thesis
    unfolding r2 l1 l2 l3 r1 f tr tl lr
    using a b r l lr tl by (simp add: metric_doc_run)
qed

text \<open>
  C7 as stated fails in the word one-time: the listener stays registered after the event,
  and a second \<^verbatim>\<open>DOMContentLoaded\<close> (a script can dispatch one) runs \<open>applyIcons\<close> again.
  On the send button with two icons the second event changes the document once more.
\<close>

theorem readiness_listener_runs_again:
  "listeners (snd (init strict_host loading_two_svg_page))
     = [(js ''DOMContentLoaded'', Call_applyIcons)]
   \<and> tree (fire_DOMContentLoaded strict_host (snd (init strict_host loading_two_svg_page)))
       = two_svg_once
   \<and> listeners (fire_DOMContentLoaded strict_host (snd (init strict_host loading_two_svg_page)))
       = [(js ''DOMContentLoaded'', Call_applyIcons)]
   \<and> tree (fire_DOMContentLoaded strict_host
              (fire_DOMContentLoaded strict_host (snd (init strict_host loading_two_svg_page))))
       = two_svg_twice
   \<and> two_svg_twice \<noteq> two_svg_once"
  by (simp add: init_def loading_two_svg_page_def fire_DOMContentLoaded_def two_svg_first_run
      two_svg_second_run two_svg_runs_differ)

section \<open>Subtrees\<close>

lemma subtrees_forest_append:
  "subtrees_forest (xs @ ys) = subtrees_forest xs @ subtrees_forest ys"
  by (induction xs) auto

lemma subtrees_ids:
  "m \<in> set (subtrees n) \<Longrightarrow> set (node_ids m) \<subseteq> set (node_ids n)"
  "m \<in> set (subtrees_forest ns) \<Longrightarrow> set (node_ids m) \<subseteq> set (forest_ids ns)"
  by (induction n and ns rule: node_ids_forest_ids.induct) auto

lemma subtrees_trans:
  "m \<in> set (subtrees n) \<Longrightarrow> set (subtrees m) \<subseteq> set (subtrees n)"
  "m \<in> set (subtrees_forest ns) \<Longrightarrow> set (subtrees m) \<subseteq> set (subtrees_forest ns)"
  by (induction n and ns rule: node_ids_forest_ids.induct) auto

lemma subtrees_children: "set (subtrees_forest (children_of m)) \<subseteq> set (subtrees m)"
  by (cases m) auto

lemma chain_in_subtrees:
  "x \<in> set (chain i n) \<Longrightarrow> x \<in> set (subtrees n)"
  "x \<in> set (chain_forest i ns) \<Longrightarrow> x \<in> set (subtrees_forest ns)"
  by (induction n and ns rule: node_ids_forest_ids.induct) (auto split: list.splits if_splits)

lemma lookup_in_subtrees: "lookup x d = Some m \<Longrightarrow> m \<in> set (subtrees_forest (all_nodes d))"
  using chain_in_subtrees(2)[of m x "all_nodes d"] by (auto simp: lookup_def split: list.splits)

lemma subtree_unique:
  "distinct (node_ids n) \<Longrightarrow> m \<in> set (subtrees n) \<Longrightarrow> node_id m = Some x \<Longrightarrow>
     \<exists>ms. chain x n = m # ms"
  "distinct (forest_ids ns) \<Longrightarrow> m \<in> set (subtrees_forest ns) \<Longrightarrow> node_id m = Some x \<Longrightarrow>
     \<exists>ms. chain_forest x ns = m # ms"
proof (induction n and ns rule: node_ids_forest_ids.induct)
  case (1 t)
  then show ?case by simp
next
  case (2 j tg as cs)
  show ?case
  proof (cases "m = Element j tg as cs")
    case True
    with "2.prems" show ?thesis by simp
  next
    case False
    with "2.prems" have mem: "m \<in> set (subtrees_forest cs)" by simp
    have "x \<in> set (node_ids m)" using "2.prems"(3) by (rule node_id_in_ids)
    with subtrees_ids(2)[OF mem] have "x \<in> set (forest_ids cs)" by blast
    with "2.prems"(1) have ne: "x \<noteq> j" by auto
    have "distinct (forest_ids cs)" using "2.prems"(1) by simp
    from "2.IH"[OF this mem "2.prems"(3)] obtain ms where "chain_forest x cs = m # ms" by blast
    with ne show ?thesis by simp
  qed
next
  case 3
  then show ?case by simp
next
  case (4 c cs)
  have dc: "distinct (node_ids c)" and dcs: "distinct (forest_ids cs)"
    and disj: "set (node_ids c) \<inter> set (forest_ids cs) = {}"
    using "4.prems" by auto
  show ?case
  proof (cases "m \<in> set (subtrees c)")
    case True
    from "4.IH"(1)[OF dc True "4.prems"(3)] show ?thesis by auto
  next
    case False
    with "4.prems" have mem: "m \<in> set (subtrees_forest cs)" by simp
    have "x \<in> set (node_ids m)" using "4.prems"(3) by (rule node_id_in_ids)
    with subtrees_ids(2)[OF mem] have "x \<in> set (forest_ids cs)" by blast
    with disj have "x \<notin> set (node_ids c)" by auto
    then have "chain x c = []" using chain_nonempty_iff(1)[of x c] by simp
    with "4.IH"(2)[OF dcs mem "4.prems"(3)] show ?thesis by simp
  qed
qed

lemma lookup_unique:
  assumes "well_formed d" and "m \<in> set (subtrees_forest (all_nodes d))" and "node_id m = Some x"
  shows "lookup x d = Some m"
proof -
  have "distinct (forest_ids (all_nodes d))" using assms(1) by (simp add: well_formed_def)
  from subtree_unique(2)[OF this assms(2,3)] show ?thesis by (auto simp: lookup_def)
qed

text \<open>In a well-formed store a descendant of an element is not a child of the Document.\<close>

lemma descendant_not_top_level:
  "distinct (forest_ids ns) \<Longrightarrow> m \<in> set (subtrees_forest ns) \<Longrightarrow>
     x \<in> set (forest_ids (children_of m)) \<Longrightarrow> Some x \<notin> set (map node_id ns)"
proof (induction ns)
  case Nil
  then show ?case by simp
next
  case (Cons c cs)
  have dc: "distinct (node_ids c)" and dcs: "distinct (forest_ids cs)"
    and disj: "set (node_ids c) \<inter> set (forest_ids cs) = {}"
    using Cons.prems by auto
  have xm: "x \<in> set (node_ids m)" using Cons.prems(3) forest_ids_children by blast
  show ?case
  proof (cases "m \<in> set (subtrees c)")
    case True
    have xc: "x \<in> set (node_ids c)" using xm subtrees_ids(1)[OF True] by blast
    have "node_id c \<noteq> Some x"
    proof
      assume r: "node_id c = Some x"
      then obtain tg as cs' where c: "c = Element x tg as cs'" by (cases c) auto
      have "set (subtrees m) \<subseteq> set (subtrees c)" using True by (rule subtrees_trans)
      with subtrees_children[of m] have sub: "set (subtrees_forest (children_of m)) \<subseteq> set (subtrees c)"
        by blast
      have "x \<in> set (forest_ids cs')"
      proof (cases "m = c")
        case True
        with Cons.prems(3) c show ?thesis by simp
      next
        case False
        with True c have "m \<in> set (subtrees_forest cs')" by simp
        from subtrees_ids(2)[OF this] xm show ?thesis by blast
      qed
      with dc c show False by simp
    qed
    moreover have "Some x \<notin> set (map node_id cs)"
    proof
      assume "Some x \<in> set (map node_id cs)"
      then obtain r where "r \<in> set cs" "node_id r = Some x" by auto
      then have "x \<in> set (forest_ids cs)"
        by (induction cs) (auto dest: node_id_in_ids)
      with xc disj show False by auto
    qed
    ultimately show ?thesis by simp
  next
    case False
    with Cons.prems have mem: "m \<in> set (subtrees_forest cs)" by simp
    have xcs: "x \<in> set (forest_ids cs)" using xm subtrees_ids(2)[OF mem] by blast
    have "node_id c \<noteq> Some x"
    proof
      assume "node_id c = Some x"
      then have "x \<in> set (node_ids c)" by (rule node_id_in_ids)
      with xcs disj show False by auto
    qed
    with Cons.IH[OF dcs mem Cons.prems(3)] show ?thesis by simp
  qed
qed

lemma set_outerHTML_descendant:
  assumes wf: "well_formed d" and n: "lookup b d = Some n"
    and x: "x \<in> set (forest_ids (children_of n))"
  shows "fst (set_outerHTML x markup d) = None"
proof -
  have dist: "distinct (forest_ids (all_nodes d))" using wf by (simp add: well_formed_def)
  have "Some x \<notin> set (map node_id (all_nodes d))"
    using dist lookup_in_subtrees[OF n] x by (rule descendant_not_top_level)
  then have "Some x \<notin> set (map node_id (document d))" by (simp add: all_nodes_def)
  then show ?thesis by (simp add: set_outerHTML_def split: option.splits)
qed

lemma send_button_callback_returns:
  assumes "well_formed d"
  shows "fst (send_button_callback b d) = None"
proof (cases "querySelector (sel_and (tag_is (js ''svg'')) (has_class (js ''send-icon''))) b d")
  case None
  then show ?thesis by (simp add: send_button_callback_def)
next
  case (Some svg)
  then obtain n where n: "lookup b d = Some n"
    and "svg \<in> set (matching_forest (sel_and (tag_is (js ''svg'')) (has_class (js ''send-icon'')))
                     (children_of n))"
    by (auto simp: querySelector_def split: option.splits list.splits)
  then have "svg \<in> set (forest_ids (children_of n))" using matching_subset_ids(2) by blast
  from set_outerHTML_descendant[OF assms n this] Some show ?thesis
    by (simp add: send_button_callback_def)
qed

lemma forEach_returns:
  assumes "\<And>x d. I d \<Longrightarrow> I (snd (f x d)) \<and> fst (f x d) = None"
  shows "I d \<Longrightarrow> fst (forEach f xs d) = None \<and> I (snd (forEach f xs d))"
proof (induction xs arbitrary: d)
  case Nil
  then show ?case by simp
next
  case (Cons x xs)
  obtain e d' where f: "f x d = (e, d')" by (cases "f x d")
  from assms[OF Cons.prems, of x] f have e: "e = None" and i: "I d'" by simp_all
  from Cons.IH[OF i] f e show ?case by simp
qed

lemma send_buttons_loop_returns:
  assumes "well_formed d"
  shows "fst (send_buttons_loop d) = None"
proof -
  have "fst (send_buttons_loop d) = None \<and> well_formed (snd (send_buttons_loop d))"
    unfolding send_buttons_loop_def
    by (rule forEach_returns[where I = well_formed, OF _ assms])
       (simp add: send_button_callback_returns send_button_callback_icons)
  then show ?thesis by simp
qed

text \<open>In a well-formed store the interface pass raises no exception.\<close>

lemma applyInterfaceIcons_returns:
  assumes "well_formed d"
  shows "applyInterfaceIcons h d
           = (None, metric_icons_loop h (file_icons_loop h (snd (send_buttons_loop (menu_buttons_loop d)))))"
proof -
  have "well_formed (menu_buttons_loop d)" using menu_buttons_loop_icons[OF assms] by simp
  then have "fst (send_buttons_loop (menu_buttons_loop d)) = None" by (rule send_buttons_loop_returns)
  then show ?thesis
    by (cases "send_buttons_loop (menu_buttons_loop d)") (simp add: applyInterfaceIcons_def)
qed

section \<open>The file-icon inference inside the interface pass\<close>

text \<open>
  C6, as the code has it. The file-icon loop runs after the rewriting of the menu buttons
  and of the send buttons, so its conditions are read in the document \<open>d'\<close> that the two
  leave. In a well-formed store the interface pass raises no exception, and for an element
  of class \<^verbatim>\<open>file-icon\<close> of \<open>d'\<close> that has no \<^verbatim>\<open>data-lucide\<close> attribute, whose trimmed
  text is empty and for which \<^verbatim>\<open>closest\<close> finds a container (the element itself when it
  matches, its nearest matching ancestor otherwise): if the lower-cased text of the
  container contains \<^verbatim>\<open>estudante\<close> and neither \<^verbatim>\<open>professor\<close> nor \<^verbatim>\<open>teacher\<close>, the element
  carries the icon \<^verbatim>\<open>user\<close> after the pass; if the text contains none of the six
  recognised substrings, it carries the icon \<^verbatim>\<open>folder\<close>.
\<close>

theorem file_icon_inference:
  assumes "well_formed d"
    and "d' = snd (send_buttons_loop (menu_buttons_loop d))"
    and "icon \<in> set (querySelectorAll (has_class (js ''file-icon'')) d')"
    and "\<not> hasAttribute icon data_lucide d'"
    and "trim (textContent icon d') = []"
    and "closest (sel_or (has_class (js ''document-item'')) (has_class (js ''metric-card''))) icon d'
           = Some container"
    and "text = toLowerCase h (textContent container d')"
  shows "fst (applyInterfaceIcons h d) = None
       \<and> (includes_js text (js ''estudante'') \<and> \<not> includes_js text (js ''professor'')
            \<and> \<not> includes_js text (js ''teacher'') \<longrightarrow>
          getAttribute icon data_lucide (snd (applyInterfaceIcons h d)) = Some (js ''user''))
       \<and> (\<not> includes_js text (js ''professor'') \<and> \<not> includes_js text (js ''teacher'')
            \<and> \<not> includes_js text (js ''estudante'') \<and> \<not> includes_js text (js ''student'')
            \<and> \<not> includes_js text (js ''analytics'')
            \<and> \<not> includes_js text (js ''m'' @ [233] @ js ''tricas'') \<longrightarrow>
          getAttribute icon data_lucide (snd (applyInterfaceIcons h d)) = Some (js ''folder''))"
proof -
  have run: "applyInterfaceIcons h d = (None, metric_icons_loop h (file_icons_loop h d'))"
    unfolding assms(2) using assms(1) by (rule applyInterfaceIcons_returns)
  have "getAttribute icon data_lucide (file_icons_loop h d') = Some (file_icon_choice text)"
    unfolding file_icons_loop_def assms(7) by (rule fold_file_icon_sets[OF assms(3-6)])
  then have "getAttribute icon data_lucide (metric_icons_loop h (file_icons_loop h d'))
               = Some (file_icon_choice text)"
    by (rule la_kept[OF metric_icons_loop_labels])
  then show ?thesis unfolding run by (simp add: file_icon_choice_def)
qed

lemma file_doc_well_formed: "well_formed file_doc"
  by (simp add: well_formed_def all_nodes_def file_doc_def)

lemma file_doc_rewriting: "snd (send_buttons_loop (menu_buttons_loop file_doc)) = file_doc"
  by (simp add: menu_buttons_loop_def send_buttons_loop_def querySelectorAll_def file_doc_def
      has_class_def has_id_def sel_or_def js_def ascii_whitespace_def)

lemma toggle_file_doc_well_formed: "well_formed toggle_file_doc"
  by (simp add: well_formed_def all_nodes_def toggle_file_doc_def)

lemma toggle_file_doc_rewriting:
  "snd (send_buttons_loop (menu_buttons_loop toggle_file_doc)) = toggle_file_rewritten"
  by (simp add: menu_buttons_loop_def send_buttons_loop_def menu_button_callback_def
      set_innerHTML_def icon_markup_def querySelectorAll_def querySelector_def lookup_def
      all_nodes_def toggle_file_doc_def toggle_file_rewritten_def has_class_def has_id_def
      has_attr_def sel_or_def js_def ascii_whitespace_def data_lucide_def)

lemma toggle_file_rewritten_facts:
  "querySelectorAll (has_class (js ''file-icon'')) toggle_file_rewritten = [7]"
  "\<not> hasAttribute 7 data_lucide toggle_file_rewritten"
  "trim (textContent 7 toggle_file_rewritten) = []"
  "closest (sel_or (has_class (js ''document-item'')) (has_class (js ''metric-card''))) 7
     toggle_file_rewritten = Some 5"
  "toLowerCase strict_host (textContent 5 toggle_file_rewritten) = []"
  by (simp_all add: querySelectorAll_def hasAttribute_def getAttribute_def textContent_def
      closest_def lookup_def all_nodes_def toggle_file_rewritten_def has_class_def sel_or_def
      js_def ascii_whitespace_def data_lucide_def trim_def strict_host_def)

theorem file_icon_inference_witness:
  "querySelectorAll (has_class (js ''file-icon'')) file_doc = [6, 8]
   \<and> includes_js (toLowerCase strict_host (textContent 5 file_doc)) (js ''estudante'')
   \<and> getAttribute 6 data_lucide (snd (applyInterfaceIcons strict_host file_doc)) = Some (js ''user'')
   \<and> \<not> includes_js (toLowerCase strict_host (textContent 7 file_doc)) (js ''estudante'')
   \<and> getAttribute 8 data_lucide (snd (applyInterfaceIcons strict_host file_doc)) = Some (js ''folder'')
   \<and> snd (send_buttons_loop (menu_buttons_loop toggle_file_doc)) \<noteq> toggle_file_doc
   \<and> getAttribute 7 data_lucide (snd (applyInterfaceIcons strict_host toggle_file_doc))
       = Some (js ''folder'')
   \<and> fst (applyInterfaceIcons strict_host toggle_file_doc) = None"
proof -
  have m: "6 \<in> set (querySelectorAll (has_class (js ''file-icon'')) file_doc)"
          "8 \<in> set (querySelectorAll (has_class (js ''file-icon'')) file_doc)"
    by (simp_all add: file_doc_icons)
  have t1: "includes_js (js ''lista de estudantes'') (js ''estudante'')"
           "\<not> includes_js (js ''lista de estudantes'') (js ''professor'')"
           "\<not> includes_js (js ''lista de estudantes'') (js ''teacher'')"
    by (simp_all add: js_def)
  have t3: "\<not> includes_js (js '' notas.pdf'') (js ''professor'')"
           "\<not> includes_js (js '' notas.pdf'') (js ''teacher'')"
           "\<not> includes_js (js '' notas.pdf'') (js ''estudante'')"
           "\<not> includes_js (js '' notas.pdf'') (js ''student'')"
           "\<not> includes_js (js '' notas.pdf'') (js ''analytics'')"
           "\<not> includes_js (js '' notas.pdf'') (js ''m'' @ [233] @ js ''tricas'')"
    by (simp_all add: js_def)
  have t5: "\<not> includes_js [] (js ''professor'')" "\<not> includes_js [] (js ''teacher'')"
           "\<not> includes_js [] (js ''estudante'')" "\<not> includes_js [] (js ''student'')"
           "\<not> includes_js [] (js ''analytics'')"
           "\<not> includes_js [] (js ''m'' @ [233] @ js ''tricas'')"
    by (simp_all add: js_def)
  have r: "file_doc = snd (send_buttons_loop (menu_buttons_loop file_doc))"
    by (simp add: file_doc_rewriting)
  have a: "getAttribute 6 data_lucide (snd (applyInterfaceIcons strict_host file_doc)) = Some (js ''user'')"
    using file_icon_inference [OF file_doc_well_formed r m(1) file_doc_unlabelled(1)
        file_doc_empty_text(1) file_doc_containers(1) refl, of strict_host] t1
    by (simp add: file_doc_texts)
  have b: "getAttribute 8 data_lucide (snd (applyInterfaceIcons strict_host file_doc)) = Some (js ''folder'')"
    using file_icon_inference [OF file_doc_well_formed r m(2) file_doc_unlabelled(2)
        file_doc_empty_text(2) file_doc_containers(2) refl, of strict_host] t3
    by (simp add: file_doc_texts)
  have r': "toggle_file_rewritten = snd (send_buttons_loop (menu_buttons_loop toggle_file_doc))"
    by (simp add: toggle_file_doc_rewriting)
  have m': "7 \<in> set (querySelectorAll (has_class (js ''file-icon'')) toggle_file_rewritten)"
    by (simp add: toggle_file_rewritten_facts)
  have c: "fst (applyInterfaceIcons strict_host toggle_file_doc) = None
           \<and> getAttribute 7 data_lucide (snd (applyInterfaceIcons strict_host toggle_file_doc))
               = Some (js ''folder'')"
    using file_icon_inference [OF toggle_file_doc_well_formed r' m' toggle_file_rewritten_facts(2-4) refl,
        of strict_host] t5
    by (simp add: toggle_file_rewritten_facts)
  have ne: "toggle_file_rewritten \<noteq> toggle_file_doc"
  proof -
    have "next_id toggle_file_rewritten \<noteq> next_id toggle_file_doc"
      by (simp add: toggle_file_rewritten_def toggle_file_doc_def)
    then show ?thesis by auto
  qed
  from a b c t1 t3 ne show ?thesis
    by (simp add: file_doc_texts file_doc_icons toggle_file_doc_rewriting)
qed

text \<open>
  C6 as stated fails when its conditions are read in the document the pass starts from:
  here the element of class \<^verbatim>\<open>file-icon\<close> has empty text and no icon, its container is the
  \<^verbatim>\<open>div\<close>, and the lower-cased text of the container is \<^verbatim>\<open>estudante\<close>. The pass first
  replaces the content of the menu button, which held that text, and the file-icon loop
  then finds a container without text: the icon is \<^verbatim>\<open>folder\<close>.
\<close>

theorem menu_rewrite_changes_file_icon:
  "querySelectorAll (has_class (js ''file-icon'')) toggle_file_doc = [7]
   \<and> \<not> hasAttribute 7 data_lucide toggle_file_doc
   \<and> trim (textContent 7 toggle_file_doc) = []
   \<and> closest (sel_or (has_class (js ''document-item'')) (has_class (js ''metric-card''))) 7
        toggle_file_doc = Some 5
   \<and> toLowerCase strict_host (textContent 5 toggle_file_doc) = js ''estudante''
   \<and> includes_js (js ''estudante'') (js ''estudante'')
   \<and> \<not> includes_js (js ''estudante'') (js ''professor'')
   \<and> \<not> includes_js (js ''estudante'') (js ''teacher'')
   \<and> fst (applyInterfaceIcons strict_host toggle_file_doc) = None
   \<and> getAttribute 7 data_lucide (snd (applyInterfaceIcons strict_host toggle_file_doc))
       = Some (js ''folder'')
   \<and> fst (applyIcons strict_host toggle_file_doc) = None
   \<and> getAttribute 7 data_lucide (snd (applyIcons strict_host toggle_file_doc))
       = Some (js ''folder'')"
proof -
  have facts:
    "querySelectorAll (has_class (js ''file-icon'')) toggle_file_doc = [7]"
    "\<not> hasAttribute 7 data_lucide toggle_file_doc"
    "trim (textContent 7 toggle_file_doc) = []"
    "closest (sel_or (has_class (js ''document-item'')) (has_class (js ''metric-card''))) 7
        toggle_file_doc = Some 5"
    "toLowerCase strict_host (textContent 5 toggle_file_doc) = js ''estudante''"
    by (simp_all add: querySelectorAll_def hasAttribute_def getAttribute_def textContent_def
        closest_def lookup_def all_nodes_def toggle_file_doc_def has_class_def sel_or_def
        js_def ascii_whitespace_def data_lucide_def trim_def strict_host_def lower_unit_def)
  have inc: "includes_js (js ''estudante'') (js ''estudante'')"
    "\<not> includes_js (js ''estudante'') (js ''professor'')"
    "\<not> includes_js (js ''estudante'') (js ''teacher'')"
    by (simp_all add: js_def)
  have nav: "applyNavigationIcons strict_host toggle_file_doc = (None, toggle_file_doc)"
    by (simp add: applyNavigationIcons_def querySelectorAll_def toggle_file_doc_def has_class_def
        js_def ascii_whitespace_def)
  have files: "file_icons_loop strict_host toggle_file_rewritten
                 = setAttribute 7 data_lucide (js ''folder'') toggle_file_rewritten"
    by (simp add: file_icons_loop_def toggle_file_rewritten_facts
        file_icon_callback_eq[OF toggle_file_rewritten_facts(2-4)] file_icon_choice_def)
  have metrics: "metric_icons_loop strict_host d = d"
    if "querySelectorAll (has_class (js ''metric-icon'')) d = []" for d
    using that by (simp add: metric_icons_loop_def)
  have nometric: "querySelectorAll (has_class (js ''metric-icon''))
                    (setAttribute 7 data_lucide (js ''folder'') toggle_file_rewritten) = []"
    by (simp add: querySelectorAll_setAttribute stable_has_class)
       (simp add: querySelectorAll_def toggle_file_rewritten_def has_class_def js_def
        ascii_whitespace_def)
  have iface: "applyInterfaceIcons strict_host toggle_file_doc
                 = (None, setAttribute 7 data_lucide (js ''folder'') toggle_file_rewritten)"
    unfolding applyInterfaceIcons_returns[OF toggle_file_doc_well_formed] toggle_file_doc_rewriting
      files metrics[OF nometric] by (rule refl)
  have ex: "lookup 7 toggle_file_rewritten \<noteq> None"
    by (simp add: lookup_def all_nodes_def toggle_file_rewritten_def)
  have res: "getAttribute 7 data_lucide (setAttribute 7 data_lucide (js ''folder'') toggle_file_rewritten)
               = Some (js ''folder'')"
    using ex by (simp add: getAttribute_setAttribute)
  have all: "applyIcons strict_host toggle_file_doc
               = (None, setAttribute 7 data_lucide (js ''folder'') toggle_file_rewritten)"
    by (simp add: applyIcons_def nav iface)
  from facts inc res show ?thesis unfolding all iface by simp
qed

text \<open>
  The container is what \<^verbatim>\<open>closest\<close> returns, which is the element itself when it matches:
  here the element of class \<^verbatim>\<open>file-icon\<close> is inside a container whose text is
  \<^verbatim>\<open>Estudante\<close>, is its own container, and receives \<^verbatim>\<open>folder\<close>.
\<close>

lemma file_icon_as_its_own_container:
  "closest (sel_or (has_class (js ''document-item'')) (has_class (js ''metric-card''))) 6
     own_container_doc = Some 6
   \<and> toLowerCase strict_host (textContent 5 own_container_doc) = js ''estudante''
   \<and> getAttribute 6 data_lucide (snd (applyInterfaceIcons strict_host own_container_doc))
       = Some (js ''folder'')"
  by (simp add: applyInterfaceIcons_def menu_buttons_loop_def send_buttons_loop_def
      file_icons_loop_def metric_icons_loop_def file_icon_callback_def
      querySelectorAll_def hasAttribute_def getAttribute_def textContent_def
      closest_def lookup_def all_nodes_def own_container_doc_def has_class_def has_id_def sel_or_def
      js_def ascii_whitespace_def data_lucide_def trim_def strict_host_def lower_unit_def
      iconMap_get_def iconMap_def setAttribute_def)

section \<open>What the rewriting of markup keeps\<close>

lemma fold_inv:
  assumes "\<And>x d. J d \<Longrightarrow> J (f x d)"
  shows "J d \<Longrightarrow> J (fold f xs d)"
  by (induction xs arbitrary: d) (auto intro: assms)

lemma forEach_inv:
  assumes "\<And>x d. J d \<Longrightarrow> J (snd (f x d))"
  shows "J d \<Longrightarrow> J (snd (forEach f xs d))"
proof (induction xs arbitrary: d)
  case Nil
  then show ?case by simp
next
  case (Cons x xs)
  obtain e d' where f: "f x d = (e, d')" by (cases "f x d")
  from assms[OF Cons.prems, of x] f have i: "J d'" by simp
  show ?case
  proof (cases e)
    case None
    with Cons.IH[OF i] f show ?thesis by simp
  next
    case (Some a)
    with i f show ?thesis by simp
  qed
qed

lemma fold_settles_inv:
  assumes inv: "\<And>x d. I d \<Longrightarrow> I (f x d)"
    and settle: "\<And>x d. I d \<Longrightarrow> P x d \<Longrightarrow> Q x (f x d)"
    and keepP: "\<And>x y d. I d \<Longrightarrow> P x d \<Longrightarrow> P x (f y d)"
    and keepQ: "\<And>x y d. I d \<Longrightarrow> Q x d \<Longrightarrow> Q x (f y d)"
  shows "I d \<Longrightarrow> \<forall>x \<in> set xs. P x d \<Longrightarrow> \<forall>x \<in> set xs. Q x (fold f xs d)"
proof (induction xs arbitrary: d)
  case Nil
  then show ?case by simp
next
  case (Cons x xs)
  have i: "I (f x d)" using Cons.prems(1) by (rule inv)
  have p: "\<forall>y \<in> set xs. P y (f x d)" using Cons.prems keepP by simp
  have "Q x (f x d)" using Cons.prems settle by simp
  with i have "I (f x d) \<and> Q x (f x d)" by simp
  then have "I (fold f xs (f x d)) \<and> Q x (fold f xs (f x d))"
    by (rule fold_inv[where J = "\<lambda>d. I d \<and> Q x d", rotated]) (simp add: inv keepQ)
  with Cons.IH[OF i p] show ?case by simp
qed

lemma plain_has_class: "plain (has_class c)"
  by (simp add: plain_def has_class_def)

lemma plain_has_id: "plain (has_id c)"
  by (simp add: plain_def has_id_def)

lemma plain_sel_or: "plain p \<Longrightarrow> plain q \<Longrightarrow> plain (sel_or p q)"
  by (simp add: plain_def sel_or_def)

lemma plain_markup: "plain sel \<Longrightarrow> matching sel (icon_markup name f) = []"
  by (simp add: plain_def icon_markup_def)

lemma matching_set_children:
  "set (matching sel (set_children b new n)) \<subseteq> set (matching sel n) \<union> set (matching_forest sel new)"
  "set (matching_forest sel (set_children_forest b new ns))
     \<subseteq> set (matching_forest sel ns) \<union> set (matching_forest sel new)"
  by (induction n and ns rule: node_ids_forest_ids.induct) auto

lemma matching_replace:
  "set (matching sel (replace_child i new n)) \<subseteq> set (matching sel n) \<union> set (matching sel new)"
  "set (matching_forest sel (replace_in_forest i new ns))
     \<subseteq> set (matching_forest sel ns) \<union> set (matching sel new)"
  by (induction n and ns rule: node_ids_forest_ids.induct) auto

lemma matching_map_replace:
  "set (matching_forest sel (map (replace_child i new) ns))
     \<subseteq> set (matching_forest sel ns) \<union> set (matching sel new)"
  using matching_replace(1)[of sel i new] by (induction ns) auto

lemma querySelectorAll_set_innerHTML:
  assumes "plain sel"
  shows "set (querySelectorAll sel (set_innerHTML b (icon_markup name) d))
           \<subseteq> set (querySelectorAll sel d)"
proof (cases "lookup b d")
  case None
  then show ?thesis by (simp add: set_innerHTML_def)
next
  case (Some n)
  then show ?thesis
    using matching_set_children(2)[of sel b "[icon_markup name (next_id d)]" "document d"]
    by (simp add: set_innerHTML_def querySelectorAll_def plain_markup[OF assms])
qed

lemma querySelectorAll_set_outerHTML:
  assumes "plain sel"
  shows "set (querySelectorAll sel (snd (set_outerHTML i (icon_markup name) d)))
           \<subseteq> set (querySelectorAll sel d)"
  using matching_map_replace[of sel i "icon_markup name (next_id d)" "document d"]
  by (simp add: set_outerHTML_def querySelectorAll_def plain_markup[OF assms] split: option.splits)

lemma querySelectorAll_menu_loop:
  assumes "plain sel"
  shows "set (querySelectorAll sel (menu_buttons_loop d)) \<subseteq> set (querySelectorAll sel d)"
  unfolding menu_buttons_loop_def
proof (rule fold_inv[where J = "\<lambda>d'. set (querySelectorAll sel d') \<subseteq> set (querySelectorAll sel d)"])
  fix x d'
  assume "set (querySelectorAll sel d') \<subseteq> set (querySelectorAll sel d)"
  with querySelectorAll_set_innerHTML[OF assms, of x "js ''menu''" d']
  show "set (querySelectorAll sel (menu_button_callback x d')) \<subseteq> set (querySelectorAll sel d)"
    by (auto simp: menu_button_callback_def)
qed simp

lemma querySelectorAll_send_loop:
  assumes "plain sel"
  shows "set (querySelectorAll sel (snd (send_buttons_loop d))) \<subseteq> set (querySelectorAll sel d)"
  unfolding send_buttons_loop_def
proof (rule forEach_inv[where J = "\<lambda>d'. set (querySelectorAll sel d') \<subseteq> set (querySelectorAll sel d)"])
  fix x d'
  assume a: "set (querySelectorAll sel d') \<subseteq> set (querySelectorAll sel d)"
  show "set (querySelectorAll sel (snd (send_button_callback x d'))) \<subseteq> set (querySelectorAll sel d)"
  proof (cases "querySelector (sel_and (tag_is (js ''svg'')) (has_class (js ''send-icon''))) x d'")
    case None
    with a show ?thesis by (simp add: send_button_callback_def)
  next
    case (Some svg)
    with a querySelectorAll_set_outerHTML[OF assms, of svg "js ''send''" d']
    show ?thesis by (auto simp: send_button_callback_def)
  qed
qed simp

lemma table_lookup:
  "lookup x d \<noteq> None \<longleftrightarrow> map_of (attr_table_forest (all_nodes d)) x \<noteq> None"
  unfolding lookup_exists_iff by (simp add: map_of_eq_None_iff attr_table_ids flip: set_map)

lemma kept_refl: "kept d d"
  by (simp add: kept_def)

lemma kept_trans: "kept d d' \<Longrightarrow> kept d' d'' \<Longrightarrow> kept d d''"
  by (simp add: kept_def)

lemma kept_extended:
  assumes t: "map_of (attr_table_forest (all_nodes d'))
             = (map_of (attr_table_forest (all_nodes d)))(f \<mapsto> a)"
    and fresh: "f \<notin> set (forest_ids (all_nodes d))"
  shows "kept d d'"
proof -
  have "map_of (attr_table_forest (all_nodes d)) f = None"
    using fresh by (simp add: map_of_eq_None_iff attr_table_ids flip: set_map)
  then show ?thesis
    unfolding kept_def table_lookup getAttribute_table t by auto
qed

lemma menu_button_callback_kept:
  assumes "well_formed d"
  shows "kept d (menu_button_callback b d)"
proof (cases "querySelector (has_attr data_lucide) b d = None \<and> lookup b d \<noteq> None")
  case True
  then have r: "menu_button_callback b d = set_innerHTML b (icon_markup (js ''menu'')) d"
    by (simp add: menu_button_callback_def)
  from True have ex: "lookup b d \<noteq> None" by simp
  show ?thesis unfolding r
    by (rule kept_extended[OF set_innerHTML_table(2)[OF assms ex] well_formed_fresh[OF assms]])
next
  case False
  then have "menu_button_callback b d = d"
    by (auto simp: menu_button_callback_def set_innerHTML_def)
  then show ?thesis by (simp add: kept_refl)
qed

lemma send_button_callback_kept:
  assumes "well_formed d"
  shows "kept d (snd (send_button_callback b d))"
proof (cases "querySelector (sel_and (tag_is (js ''svg'')) (has_class (js ''send-icon''))) b d")
  case None
  then show ?thesis by (simp add: send_button_callback_def kept_refl)
next
  case (Some svg)
  then have r: "send_button_callback b d = set_outerHTML svg (icon_markup (js ''send'')) d"
    by (simp add: send_button_callback_def)
  let ?d = "snd (set_outerHTML svg (icon_markup (js ''send'')) d)"
  have "kept d ?d"
  proof (cases "?d = d")
    case True
    then show ?thesis by (simp add: kept_refl)
  next
    case False
    with set_outerHTML_table(2)[OF assms, of svg "js ''send''"]
    have "map_of (attr_table_forest (all_nodes ?d))
            = (map_of (attr_table_forest (all_nodes d)))(next_id d \<mapsto> [(js ''data-lucide'', js ''send'')])"
      by simp
    then show ?thesis by (rule kept_extended[OF _ well_formed_fresh[OF assms]])
  qed
  then show ?thesis unfolding r by simp
qed

lemma menu_buttons_loop_kept:
  assumes "well_formed d"
  shows "kept d (menu_buttons_loop d)"
proof -
  have "well_formed (menu_buttons_loop d) \<and> kept d (menu_buttons_loop d)"
    unfolding menu_buttons_loop_def
  proof (rule fold_inv[where J = "\<lambda>d'. well_formed d' \<and> kept d d'"])
    fix x d'
    assume a: "well_formed d' \<and> kept d d'"
    then have "kept d' (menu_button_callback x d')" by (simp add: menu_button_callback_kept)
    with a menu_button_callback_icons[of d' x]
    show "well_formed (menu_button_callback x d') \<and> kept d (menu_button_callback x d')"
      by (auto intro: kept_trans)
  qed (simp add: assms kept_refl)
  then show ?thesis by simp
qed

lemma send_buttons_loop_kept:
  assumes "well_formed d"
  shows "kept d (snd (send_buttons_loop d))"
proof -
  have "well_formed (snd (send_buttons_loop d)) \<and> kept d (snd (send_buttons_loop d))"
    unfolding send_buttons_loop_def
  proof (rule forEach_inv[where J = "\<lambda>d'. well_formed d' \<and> kept d d'"])
    fix x d'
    assume a: "well_formed d' \<and> kept d d'"
    then have "kept d' (snd (send_button_callback x d'))" by (simp add: send_button_callback_kept)
    with a send_button_callback_icons[of d' x]
    show "well_formed (snd (send_button_callback x d')) \<and> kept d (snd (send_button_callback x d'))"
      by (auto intro: kept_trans)
  qed (simp add: assms kept_refl)
  then show ?thesis by simp
qed

section \<open>Icons below an element, through the rewriting of markup\<close>

lemma node_id_set_children [simp]: "node_id (set_children b new m) = node_id m"
  by (cases m) auto

lemma node_id_replace_child [simp]: "node_id (replace_child i new m) = node_id m"
  by (cases m) auto

lemma children_of_set_children:
  "children_of (set_children b new m) =
     (if node_id m = Some b then new else set_children_forest b new (children_of m))"
  by (cases m) auto

lemma children_of_replace_child:
  "children_of (replace_child i new m) = replace_in_forest i new (children_of m)"
  by (cases m) auto

lemma subtrees_set_children:
  "n' \<in> set (subtrees (set_children b new n)) \<Longrightarrow>
     (\<exists>m \<in> set (subtrees n). n' = set_children b new m) \<or> n' \<in> set (subtrees_forest new)"
  "n' \<in> set (subtrees_forest (set_children_forest b new ns)) \<Longrightarrow>
     (\<exists>m \<in> set (subtrees_forest ns). n' = set_children b new m) \<or> n' \<in> set (subtrees_forest new)"
proof (induction n and ns rule: node_ids_forest_ids.induct)
  case (1 t)
  then show ?case by simp
next
  case (2 j tg as cs)
  show ?case
  proof (cases "b = j")
    case True
    with "2.prems" show ?thesis by auto
  next
    case False
    show ?thesis
    proof (cases "n' = Element j tg as (set_children_forest b new cs)")
      case True
      with False have "n' = set_children b new (Element j tg as cs)" by simp
      then show ?thesis by auto
    next
      case no: False
      with False "2.prems" have "n' \<in> set (subtrees_forest (set_children_forest b new cs))" by simp
      from "2.IH"[OF this] show ?thesis by auto
    qed
  qed
next
  case 3
  then show ?case by simp
next
  case (4 c cs)
  from "4.prems" have "n' \<in> set (subtrees (set_children b new c))
      \<or> n' \<in> set (subtrees_forest (set_children_forest b new cs))" by simp
  then show ?case
  proof
    assume "n' \<in> set (subtrees (set_children b new c))"
    from "4.IH"(1)[OF this] show ?thesis by auto
  next
    assume "n' \<in> set (subtrees_forest (set_children_forest b new cs))"
    from "4.IH"(2)[OF this] show ?thesis by auto
  qed
qed

lemma subtrees_replace:
  "n' \<in> set (subtrees (replace_child i new n)) \<Longrightarrow>
     (\<exists>m \<in> set (subtrees n). n' = replace_child i new m) \<or> n' \<in> set (subtrees new)"
  "n' \<in> set (subtrees_forest (replace_in_forest i new ns)) \<Longrightarrow>
     (\<exists>m \<in> set (subtrees_forest ns). n' = replace_child i new m) \<or> n' \<in> set (subtrees new)"
proof (induction n and ns rule: node_ids_forest_ids.induct)
  case (1 t)
  then show ?case by simp
next
  case (2 j tg as cs)
  show ?case
  proof (cases "n' = Element j tg as (replace_in_forest i new cs)")
    case True
    then have "n' = replace_child i new (Element j tg as cs)" by simp
    then show ?thesis by auto
  next
    case False
    with "2.prems" have "n' \<in> set (subtrees_forest (replace_in_forest i new cs))" by simp
    from "2.IH"[OF this] show ?thesis by auto
  qed
next
  case 3
  then show ?case by simp
next
  case (4 c cs)
  show ?case
  proof (cases "node_id c = Some i")
    case True
    with "4.prems" have "n' \<in> set (subtrees new)
        \<or> n' \<in> set (subtrees_forest (replace_in_forest i new cs))" by simp
    then show ?thesis
    proof
      assume "n' \<in> set (subtrees new)"
      then show ?thesis by simp
    next
      assume "n' \<in> set (subtrees_forest (replace_in_forest i new cs))"
      from "4.IH"(2)[OF this] show ?thesis by auto
    qed
  next
    case False
    with "4.prems" have "n' \<in> set (subtrees (replace_child i new c))
        \<or> n' \<in> set (subtrees_forest (replace_in_forest i new cs))" by simp
    then show ?thesis
    proof
      assume "n' \<in> set (subtrees (replace_child i new c))"
      from "4.IH"(1)[OF this] show ?thesis by auto
    next
      assume "n' \<in> set (subtrees_forest (replace_in_forest i new cs))"
      from "4.IH"(2)[OF this] show ?thesis by auto
    qed
  qed
qed

lemma icon_matching_set_children:
  assumes "matching_forest P new \<noteq> []"
  shows "matching P n \<noteq> [] \<Longrightarrow> matching P (set_children b new n) \<noteq> []"
    and "matching_forest P ns \<noteq> [] \<Longrightarrow> matching_forest P (set_children_forest b new ns) \<noteq> []"
  using assms by (induction n and ns rule: node_ids_forest_ids.induct) (auto split: if_splits)

lemma icon_matching_replace:
  assumes "matching P new \<noteq> []"
  shows "matching P n \<noteq> [] \<Longrightarrow> matching P (replace_child i new n) \<noteq> []"
    and "matching_forest P ns \<noteq> [] \<Longrightarrow> matching_forest P (replace_in_forest i new ns) \<noteq> []"
  using assms by (induction n and ns rule: node_ids_forest_ids.induct) (auto split: if_splits)

lemma icon_markup_matches: "matching (has_attr data_lucide) (icon_markup name f) = [f]"
  by (simp add: icon_markup_def has_attr_def data_lucide_def)

lemma subtrees_icon_markup: "subtrees (icon_markup name f) = [icon_markup name f]"
  by (simp add: icon_markup_def)

lemma lookup_after_set_innerHTML:
  assumes wf: "well_formed d" and b: "lookup b d = Some nb"
    and n': "lookup x (set_innerHTML b (icon_markup name) d) = Some n'"
  shows "x = next_id d
         \<or> (\<exists>m. lookup x d = Some m
               \<and> (n' = m \<or> n' = set_children b [icon_markup name (next_id d)] m))"
proof -
  let ?new = "icon_markup name (next_id d)"
  let ?d = "set_innerHTML b (icon_markup name) d"
  have an: "all_nodes ?d = set_children_forest b [?new] (all_nodes d) @ children_of nb"
    using b by (simp add: set_innerHTML_def all_nodes_def set_children_forest_append)
  have id: "node_id n' = Some x" using n' by (rule lookup_node_id)
  have "n' \<in> set (subtrees_forest (all_nodes ?d))" using n' by (rule lookup_in_subtrees)
  then have "n' \<in> set (subtrees_forest (set_children_forest b [?new] (all_nodes d)))
             \<or> n' \<in> set (subtrees_forest (children_of nb))"
    by (simp add: an subtrees_forest_append)
  then show ?thesis
  proof
    assume "n' \<in> set (subtrees_forest (set_children_forest b [?new] (all_nodes d)))"
    from subtrees_set_children(2)[OF this]
    show ?thesis
    proof
      assume "\<exists>m \<in> set (subtrees_forest (all_nodes d)). n' = set_children b [?new] m"
      then obtain m where m: "m \<in> set (subtrees_forest (all_nodes d))"
        and e: "n' = set_children b [?new] m" by blast
      have "node_id m = Some x" using id e by simp
      with wf m have "lookup x d = Some m" by (rule lookup_unique)
      with e show ?thesis by simp
    next
      assume "n' \<in> set (subtrees_forest [?new])"
      then have "n' = ?new" by (simp add: subtrees_icon_markup)
      with id show ?thesis by (simp add: icon_markup_def)
    qed
  next
    assume c: "n' \<in> set (subtrees_forest (children_of nb))"
    have "nb \<in> set (subtrees_forest (all_nodes d))" using b by (rule lookup_in_subtrees)
    then have "set (subtrees nb) \<subseteq> set (subtrees_forest (all_nodes d))" by (rule subtrees_trans)
    with c subtrees_children[of nb] have "n' \<in> set (subtrees_forest (all_nodes d))" by blast
    with wf have "lookup x d = Some n'" using id by (rule lookup_unique)
    then show ?thesis by simp
  qed
qed

lemma lookup_after_set_outerHTML:
  assumes wf: "well_formed d"
    and n': "lookup x (snd (set_outerHTML i (icon_markup name) d)) = Some n'"
  shows "x = next_id d
         \<or> (\<exists>m. lookup x d = Some m
               \<and> (n' = m \<or> n' = replace_child i (icon_markup name (next_id d)) m))"
proof (cases "Some i \<in> set (map node_id (document d)) \<or> Some i \<in> set (map node_id (detached d))
                \<or> lookup i d = None")
  case True
  then have "snd (set_outerHTML i (icon_markup name) d) = d" by (auto simp: set_outerHTML_def)
  with n' show ?thesis by simp
next
  case False
  let ?new = "icon_markup name (next_id d)"
  let ?d = "snd (set_outerHTML i (icon_markup name) d)"
  from False obtain ni where lk: "lookup i d = Some ni" by auto
  have top: "Some i \<notin> set (map node_id (all_nodes d))" using False by (auto simp: all_nodes_def)
  have res: "?d = d\<lparr>document := map (replace_child i ?new) (document d),
                    detached := map (replace_child i ?new) (detached d) @ [ni],
                    next_id := Suc (next_id d)\<rparr>"
    using False lk by (auto simp: set_outerHTML_def)
  have an: "all_nodes ?d = replace_in_forest i ?new (all_nodes d) @ [ni]"
    using replace_top_level[OF top, of ?new] by (simp add: res all_nodes_def)
  have id: "node_id n' = Some x" using n' by (rule lookup_node_id)
  have "n' \<in> set (subtrees_forest (all_nodes ?d))" using n' by (rule lookup_in_subtrees)
  then have "n' \<in> set (subtrees_forest (replace_in_forest i ?new (all_nodes d)))
             \<or> n' \<in> set (subtrees ni)"
    by (simp add: an subtrees_forest_append)
  then show ?thesis
  proof
    assume "n' \<in> set (subtrees_forest (replace_in_forest i ?new (all_nodes d)))"
    from subtrees_replace(2)[OF this]
    show ?thesis
    proof
      assume "\<exists>m \<in> set (subtrees_forest (all_nodes d)). n' = replace_child i ?new m"
      then obtain m where m: "m \<in> set (subtrees_forest (all_nodes d))"
        and e: "n' = replace_child i ?new m" by blast
      have "node_id m = Some x" using id e by simp
      with wf m have "lookup x d = Some m" by (rule lookup_unique)
      with e show ?thesis by simp
    next
      assume "n' \<in> set (subtrees ?new)"
      then have "n' = ?new" by (simp add: subtrees_icon_markup)
      with id show ?thesis by (simp add: icon_markup_def)
    qed
  next
    assume c: "n' \<in> set (subtrees ni)"
    have "ni \<in> set (subtrees_forest (all_nodes d))" using lk by (rule lookup_in_subtrees)
    then have "set (subtrees ni) \<subseteq> set (subtrees_forest (all_nodes d))" by (rule subtrees_trans)
    with c have "n' \<in> set (subtrees_forest (all_nodes d))" by blast
    with wf have "lookup x d = Some n'" using id by (rule lookup_unique)
    then show ?thesis by simp
  qed
qed

lemma iconed_iff:
  "iconed t d \<longleftrightarrow>
     (\<exists>m. lookup t d = Some m \<and> matching_forest (has_attr data_lucide) (children_of m) \<noteq> [])"
  by (auto simp: iconed_def querySelector_def split: option.splits list.splits)

lemma iconed_menu_callback:
  assumes wf: "well_formed d" and t: "iconed t d"
  shows "iconed t (menu_button_callback b d)"
proof (cases "querySelector (has_attr data_lucide) b d = None \<and> lookup b d \<noteq> None")
  case True
  then have r: "menu_button_callback b d = set_innerHTML b (icon_markup (js ''menu'')) d"
    by (simp add: menu_button_callback_def)
  let ?new = "icon_markup (js ''menu'') (next_id d)"
  from True obtain nb where nb: "lookup b d = Some nb" by auto
  from t obtain m where m: "lookup t d = Some m"
    and im: "matching_forest (has_attr data_lucide) (children_of m) \<noteq> []"
    by (auto simp: iconed_iff)
  have "kept d (menu_button_callback b d)" using wf by (rule menu_button_callback_kept)
  with m obtain n' where n': "lookup t (set_innerHTML b (icon_markup (js ''menu'')) d) = Some n'"
    by (auto simp: kept_def r)
  have "t \<in> set (forest_ids (all_nodes d))" using m lookup_exists_iff[of t d] by simp
  with well_formed_fresh[OF wf] have ne: "t \<noteq> next_id d" by auto
  from lookup_after_set_innerHTML[OF wf nb n'] ne m
  have "n' = m \<or> n' = set_children b [?new] m" by auto
  moreover have "matching_forest (has_attr data_lucide) [?new] \<noteq> []"
    by (simp add: icon_markup_matches)
  ultimately have "matching_forest (has_attr data_lucide) (children_of n') \<noteq> []"
    using im icon_matching_set_children(2)[of "has_attr data_lucide" "[?new]" "children_of m" b]
    by (auto simp: children_of_set_children split: if_splits)
  with n' show ?thesis unfolding r iconed_iff by simp
next
  case False
  then have "menu_button_callback b d = d"
    by (auto simp: menu_button_callback_def set_innerHTML_def)
  with t show ?thesis by simp
qed

lemma iconed_send_callback:
  assumes wf: "well_formed d" and t: "iconed t d"
  shows "iconed t (snd (send_button_callback b d))"
proof (cases "querySelector (sel_and (tag_is (js ''svg'')) (has_class (js ''send-icon''))) b d")
  case None
  with t show ?thesis by (simp add: send_button_callback_def)
next
  case (Some svg)
  then have r: "send_button_callback b d = set_outerHTML svg (icon_markup (js ''send'')) d"
    by (simp add: send_button_callback_def)
  let ?new = "icon_markup (js ''send'') (next_id d)"
  from t obtain m where m: "lookup t d = Some m"
    and im: "matching_forest (has_attr data_lucide) (children_of m) \<noteq> []"
    by (auto simp: iconed_iff)
  have "kept d (snd (send_button_callback b d))" using wf by (rule send_button_callback_kept)
  with m obtain n' where n': "lookup t (snd (set_outerHTML svg (icon_markup (js ''send'')) d)) = Some n'"
    by (auto simp: kept_def r)
  have "t \<in> set (forest_ids (all_nodes d))" using m lookup_exists_iff[of t d] by simp
  with well_formed_fresh[OF wf] have ne: "t \<noteq> next_id d" by auto
  from lookup_after_set_outerHTML[OF wf n'] ne m
  have "n' = m \<or> n' = replace_child svg ?new m" by auto
  moreover have "matching (has_attr data_lucide) ?new \<noteq> []"
    by (simp add: icon_markup_matches)
  ultimately have "matching_forest (has_attr data_lucide) (children_of n') \<noteq> []"
    using im icon_matching_replace(2)[of "has_attr data_lucide" ?new "children_of m" svg]
    by (auto simp: children_of_replace_child)
  with n' show ?thesis unfolding r iconed_iff by simp
qed

lemma chain_forest_append:
  "chain_forest i (xs @ ys) = (case chain_forest i xs of [] \<Rightarrow> chain_forest i ys | x # l \<Rightarrow> x # l)"
  by (induction xs) (auto split: list.splits)

lemma chain_set_children_self:
  "chain t n \<noteq> [] \<Longrightarrow> \<exists>y ys. chain t (set_children t new n) = y # ys \<and> children_of y = new"
  "chain_forest t ns \<noteq> [] \<Longrightarrow>
     \<exists>y ys. chain_forest t (set_children_forest t new ns) = y # ys \<and> children_of y = new"
proof (induction n and ns rule: node_ids_forest_ids.induct)
  case (1 s)
  then show ?case by simp
next
  case (2 j tg as cs)
  show ?case
  proof (cases "t = j")
    case True
    then show ?thesis by simp
  next
    case False
    with "2.prems" have "chain_forest t cs \<noteq> []" by (auto split: list.splits)
    from "2.IH"[OF this] obtain y ys
      where "chain_forest t (set_children_forest t new cs) = y # ys" "children_of y = new" by blast
    with False show ?thesis by simp
  qed
next
  case 3
  then show ?case by simp
next
  case (4 c cs)
  show ?case
  proof (cases "chain t c")
    case Nil
    then have "t \<notin> set (node_ids c)" using chain_nonempty_iff(1)[of t c] by simp
    then have same: "set_children t new c = c" by (rule set_children_absent)
    from Nil "4.prems" have "chain_forest t cs \<noteq> []" by simp
    from "4.IH"(2)[OF this] same Nil show ?thesis by simp
  next
    case (Cons x xs)
    then have "chain t c \<noteq> []" by simp
    from "4.IH"(1)[OF this] obtain y ys
      where "chain t (set_children t new c) = y # ys" "children_of y = new" by blast
    then show ?thesis by simp
  qed
qed

lemma iconed_after_menu_callback:
  assumes "lookup t d \<noteq> None"
  shows "iconed t (menu_button_callback t d)"
proof (cases "querySelector (has_attr data_lucide) t d = None")
  case False
  then obtain y where "querySelector (has_attr data_lucide) t d = Some y" by auto
  then show ?thesis by (simp add: menu_button_callback_def iconed_def)
next
  case True
  let ?new = "icon_markup (js ''menu'') (next_id d)"
  from assms obtain nb where nb: "lookup t d = Some nb" by auto
  then have "chain_forest t (all_nodes d) \<noteq> []" by (auto simp: lookup_def split: list.splits)
  from chain_set_children_self(2)[OF this, of "[?new]"] obtain y ys
    where y: "chain_forest t (set_children_forest t [?new] (all_nodes d)) = y # ys"
      and c: "children_of y = [?new]" by blast
  have an: "all_nodes (set_innerHTML t (icon_markup (js ''menu'')) d)
              = set_children_forest t [?new] (all_nodes d) @ children_of nb"
    using nb by (simp add: set_innerHTML_def all_nodes_def set_children_forest_append)
  have "lookup t (set_innerHTML t (icon_markup (js ''menu'')) d) = Some y"
    by (simp add: lookup_def an chain_forest_append y)
  with c show ?thesis
    using True by (simp add: menu_button_callback_def iconed_iff icon_markup_matches)
qed

lemma menu_loop_settles:
  assumes "well_formed d"
  shows "\<forall>t \<in> set (querySelectorAll (has_class (js ''mobile-menu-toggle'')) d).
           iconed t (menu_buttons_loop d)"
  unfolding menu_buttons_loop_def
proof (rule fold_settles_inv[where I = well_formed and P = "\<lambda>x d. lookup x d \<noteq> None"
        and Q = iconed and f = menu_button_callback, OF _ _ _ _ assms])
  show "well_formed (menu_button_callback x d)" if "well_formed d" for x d
    using menu_button_callback_icons[OF that] by simp
  show "iconed x (menu_button_callback x d)" if "well_formed d" "lookup x d \<noteq> None" for x d
    using that(2) by (rule iconed_after_menu_callback)
  show "lookup x (menu_button_callback y d) \<noteq> None" if "well_formed d" "lookup x d \<noteq> None" for x y d
    using menu_button_callback_kept[OF that(1), of y] that(2) by (simp add: kept_def)
  show "iconed x (menu_button_callback y d)" if "well_formed d" "iconed x d" for x y d
    using that by (rule iconed_menu_callback)
  show "\<forall>x \<in> set (querySelectorAll (has_class (js ''mobile-menu-toggle'')) d). lookup x d \<noteq> None"
    using querySelectorAll_exists by blast
qed

lemma iconed_send_loop:
  assumes "well_formed d" and "iconed t d"
  shows "iconed t (snd (send_buttons_loop d))"
proof -
  have "well_formed (snd (send_buttons_loop d)) \<and> iconed t (snd (send_buttons_loop d))"
    unfolding send_buttons_loop_def
  proof (rule forEach_inv[where J = "\<lambda>d'. well_formed d' \<and> iconed t d'"])
    fix x d'
    assume a: "well_formed d' \<and> iconed t d'"
    with send_button_callback_icons[of d' x] iconed_send_callback[of d' t x]
    show "well_formed (snd (send_button_callback x d')) \<and> iconed t (snd (send_button_callback x d'))"
      by simp
  qed (simp add: assms)
  then show ?thesis by simp
qed

lemma iconed_labels: "labels_added d d' \<Longrightarrow> iconed t d \<Longrightarrow> iconed t d'"
  unfolding iconed_def by (rule la_icon_descendant)

section \<open>A second run of applyIcons\<close>

lemma nav_quiet_transfer:
  assumes "nav_quiet x d"
    and "querySelector (has_class (js ''nav-item-icon'')) x d'
           = querySelector (has_class (js ''nav-item-icon'')) x d"
    and "textContent x d' = textContent x d"
    and "getAttribute x (js ''href'') d' = getAttribute x (js ''href'') d"
    and "\<And>ic v. getAttribute ic data_lucide d = Some v \<Longrightarrow> getAttribute ic data_lucide d' = Some v"
  shows "nav_quiet x d'"
proof (cases "querySelector (has_class (js ''nav-item-icon'')) x d")
  case None
  with assms(2) show ?thesis by (simp add: nav_quiet_def)
next
  case (Some ic)
  show ?thesis
  proof (cases "hasAttribute ic data_lucide d")
    case True
    then obtain v where "getAttribute ic data_lucide d = Some v" by (auto simp: hasAttribute_def)
    then have "getAttribute ic data_lucide d' = Some v" by (rule assms(5))
    then have "hasAttribute ic data_lucide d'" by (simp add: hasAttribute_def)
    with Some assms(2) show ?thesis by (simp add: nav_quiet_def)
  next
    case False
    with Some assms(1) show ?thesis
      by (simp add: nav_quiet_def assms(2,3,4))
  qed
qed

lemma menu_loop_iconed:
  assumes "\<forall>t \<in> set (querySelectorAll (has_class (js ''mobile-menu-toggle'')) d). iconed t d"
  shows "menu_buttons_loop d = d"
  unfolding menu_buttons_loop_def
proof (rule fold_id)
  fix x
  assume "x \<in> set (querySelectorAll (has_class (js ''mobile-menu-toggle'')) d)"
  with assms have "iconed x d" by blast
  then obtain y where "querySelector (has_attr data_lucide) x d = Some y"
    by (auto simp: iconed_def)
  then show "menu_button_callback x d = d" by (simp add: menu_button_callback_def)
qed

lemma send_loop_without_svg:
  assumes "\<forall>b \<in> set (querySelectorAll
                         (sel_or (has_id (js ''sendButton'')) (has_class (js ''send-button''))) d).
             querySelector (sel_and (tag_is (js ''svg'')) (has_class (js ''send-icon''))) b d = None"
  shows "send_buttons_loop d = (None, d)"
  unfolding send_buttons_loop_def
  using assms by (intro forEach_id) (simp add: send_button_callback_def)

text \<open>
  C9, as the code has it. Take a well-formed store and a first run in which the navigation
  pass raises no exception, and let \<open>d'\<close> be the document the two passes leave. The
  passes, run again on \<open>d'\<close>, raise no exception and leave \<open>d'\<close> as it is, if in \<open>d'\<close>
  \<^item> no send button has an \<^verbatim>\<open>svg.send-icon\<close> below it, and
  \<^item> every navigation item has the text and the first \<^verbatim>\<open>.nav-item-icon\<close> descendant that
    it had before the run (the rewriting of the menu buttons and of the send buttons has
    not changed them).

  When the rendering library is absent, \<open>d'\<close> is the result of \<open>applyIcons\<close> and a
  second \<open>applyIcons\<close> returns it unchanged.
\<close>

theorem second_run_changes_nothing:
  assumes wf: "well_formed d"
    and nav1: "applyNavigationIcons h d = (None, d1)"
    and d': "d' = snd (applyInterfaceIcons h d1)"
    and send: "\<forall>b \<in> set (querySelectorAll
                            (sel_or (has_id (js ''sendButton'')) (has_class (js ''send-button''))) d').
                 querySelector (sel_and (tag_is (js ''svg'')) (has_class (js ''send-icon''))) b d' = None"
    and nav: "\<forall>x \<in> set (querySelectorAll (has_class (js ''nav-item'')) d').
                 textContent x d' = textContent x d
                 \<and> querySelector (has_class (js ''nav-item-icon'')) x d'
                     = querySelector (has_class (js ''nav-item-icon'')) x d"
  shows "applyNavigationIcons h d' = (None, d')
       \<and> applyInterfaceIcons h d' = (None, d')
       \<and> (lucide h = None \<longrightarrow> applyIcons h d = (None, d') \<and> applyIcons h d' = (None, d'))"
proof -
  have la01: "labels_added d d1" using applyNavigationIcons_labels[of d h] nav1 by simp
  have wf1: "well_formed d1" using applyNavigationIcons_icons[OF wf, of h] nav1 by simp
  define d2 where "d2 = menu_buttons_loop d1"
  define d3 where "d3 = snd (send_buttons_loop d2)"
  define d4 where "d4 = file_icons_loop h d3"
  have i1: "applyInterfaceIcons h d1 = (None, metric_icons_loop h d4)"
    unfolding d4_def d3_def d2_def using wf1 by (rule applyInterfaceIcons_returns)
  then have d5: "d' = metric_icons_loop h d4" by (simp add: d')
  have wf2: "well_formed d2" unfolding d2_def using menu_buttons_loop_icons[OF wf1] by simp
  have la34: "labels_added d3 d4" unfolding d4_def by (rule file_icons_loop_labels)
  have la45: "labels_added d4 d'" unfolding d5 by (rule metric_icons_loop_labels)
  have la35: "labels_added d3 d'" using la45 la34 by (rule labels_added_trans)
  have k13: "kept d1 d3"
    unfolding d3_def d2_def
    using menu_buttons_loop_kept[OF wf1] send_buttons_loop_kept[OF wf2[unfolded d2_def]]
    by (rule kept_trans)
  have icons: "getAttribute ic data_lucide d' = Some v"
    if "getAttribute ic data_lucide d1 = Some v" for ic v
    using applyInterfaceIcons_icons[OF wf1, of h] that by (simp add: icons_from_def d')
  have sub: "set (querySelectorAll sel d') \<subseteq> set (querySelectorAll sel d1)"
    if p: "plain sel" and s: "stable sel data_lucide" for sel
  proof -
    have "set (querySelectorAll sel d3) \<subseteq> set (querySelectorAll sel d2)"
      unfolding d3_def using p by (rule querySelectorAll_send_loop)
    moreover have "set (querySelectorAll sel d2) \<subseteq> set (querySelectorAll sel d1)"
      unfolding d2_def using p by (rule querySelectorAll_menu_loop)
    ultimately show ?thesis by (simp add: la_querySelectorAll[OF la35 s])
  qed
  have "\<forall>x \<in> set (querySelectorAll (has_class (js ''nav-item'')) d'). nav_quiet x d'"
  proof
    fix x
    assume x: "x \<in> set (querySelectorAll (has_class (js ''nav-item'')) d')"
    then have x1: "x \<in> set (querySelectorAll (has_class (js ''nav-item'')) d1)"
      using sub[OF plain_has_class stable_has_class] by blast
    then have "x \<in> set (querySelectorAll (has_class (js ''nav-item'')) d)"
      by (simp add: la_querySelectorAll[OF la01 stable_has_class])
    with nav_pass_settles[OF nav1] have q1: "nav_quiet x d1" by blast
    have ex: "lookup x d1 \<noteq> None" using x1 by (rule querySelectorAll_exists)
    have "getAttribute x (js ''href'') d3 = getAttribute x (js ''href'') d1"
      using k13 ex by (simp add: kept_def)
    then have href: "getAttribute x (js ''href'') d' = getAttribute x (js ''href'') d1"
      by (simp add: la_attr_other[OF la35 href_not_icon])
    have same_text: "textContent x d' = textContent x d1"
      using nav x by (simp add: la_text[OF la01])
    have icon: "querySelector (has_class (js ''nav-item-icon'')) x d'
                  = querySelector (has_class (js ''nav-item-icon'')) x d1"
      using nav x by (simp add: la_querySelector[OF la01 stable_has_class])
    show "nav_quiet x d'"
      using q1 icon same_text href icons by (rule nav_quiet_transfer)
  qed
  then have n2: "applyNavigationIcons h d' = (None, d')" by (rule nav_pass_quiet)
  have "\<forall>t \<in> set (querySelectorAll (has_class (js ''mobile-menu-toggle'')) d'). iconed t d'"
  proof
    fix t
    assume "t \<in> set (querySelectorAll (has_class (js ''mobile-menu-toggle'')) d')"
    then have "t \<in> set (querySelectorAll (has_class (js ''mobile-menu-toggle'')) d1)"
      using sub[OF plain_has_class stable_has_class] by blast
    with menu_loop_settles[OF wf1] have "iconed t d2" by (simp add: d2_def)
    with wf2 have "iconed t d3" unfolding d3_def by (rule iconed_send_loop)
    with la35 show "iconed t d'" by (rule iconed_labels)
  qed
  then have m2: "menu_buttons_loop d' = d'" by (rule menu_loop_iconed)
  have s2: "send_buttons_loop d' = (None, d')" using send by (rule send_loop_without_svg)
  have "\<forall>x \<in> set (querySelectorAll (has_class (js ''file-icon'')) d3). file_quiet x d4"
    unfolding d4_def by (rule file_loop_settles)
  then have "\<forall>x \<in> set (querySelectorAll (has_class (js ''file-icon'')) d'). file_quiet x d'"
    using file_quiet_mono[OF _ la45] by (simp add: la_querySelectorAll[OF la35 stable_has_class])
  then have f2: "file_icons_loop h d' = d'" by (rule file_loop_quiet)
  have "\<forall>x \<in> set (querySelectorAll (has_class (js ''metric-icon'')) d4). metric_quiet x d'"
    unfolding d5 by (rule metric_loop_settles)
  then have "\<forall>x \<in> set (querySelectorAll (has_class (js ''metric-icon'')) d'). metric_quiet x d'"
    by (simp add: la_querySelectorAll[OF la45 stable_has_class])
  then have me2: "metric_icons_loop h d' = d'" by (rule metric_loop_quiet)
  have i2: "applyInterfaceIcons h d' = (None, d')"
    by (simp add: applyInterfaceIcons_def m2 s2 f2 me2)
  have i1': "applyInterfaceIcons h d1 = (None, d')" using i1 d5 by simp
  have "applyIcons h d = (None, d') \<and> applyIcons h d' = (None, d')" if "lucide h = None"
    using that by (simp add: applyIcons_def nav1 i1' n2 i2 createIcons_if_defined_def)
  with n2 i2 show ?thesis by simp
qed

lemma about_doc_well_formed: "well_formed about_doc"
  by (simp add: well_formed_def all_nodes_def about_doc_def)

lemma about_doc_nav: "applyNavigationIcons strict_host about_doc = (None, about_doc)"
  by (simp add: applyNavigationIcons_def nav_item_callback_def
      querySelectorAll_def querySelector_def getAttribute_def hasAttribute_def lookup_def
      textContent_def all_nodes_def about_doc_def has_class_def js_def
      ascii_whitespace_def data_lucide_def nav_icon_name_def)

lemma about_doc_rewriting:
  "snd (send_buttons_loop (menu_buttons_loop about_doc))
     = \<lparr>document =
        [Element 5 (js ''a'') [(js ''class'', js ''nav-item''), (js ''href'', js ''/about'')]
           [Element 6 (js ''span'') [(js ''class'', js ''nav-item-icon'')] [],
            Text (js ''Sobre'')],
         Element 7 (js ''button'') [(js ''class'', js ''mobile-menu-toggle'')]
           [Element 12 (js ''i'') [(js ''data-lucide'', js ''menu'')] []],
         Element 8 (js ''button'') [(js ''id'', js ''sendButton'')]
           [Element 13 (js ''i'') [(js ''data-lucide'', js ''send'')] []],
         Element 10 (js ''div'') [(js ''class'', js ''metric-card'')]
           [Element 11 (js ''span'') [(js ''class'', js ''metric-icon'')] [],
            Text (js ''Tempo de resposta'')]],
      detached = [Text (js ''Menu''), Element 9 (js ''svg'') [(js ''class'', js ''send-icon'')] []],
      next_id = 14\<rparr>"
  by (simp add: menu_buttons_loop_def send_buttons_loop_def menu_button_callback_def
      send_button_callback_def set_innerHTML_def set_outerHTML_def icon_markup_def
      querySelectorAll_def querySelector_def lookup_def all_nodes_def about_doc_def
      has_class_def has_id_def has_attr_def sel_or_def sel_and_def tag_is_def js_def
      ascii_whitespace_def data_lucide_def)

lemma about_doc_interface: "applyInterfaceIcons strict_host about_doc = (None, about_done)"
  unfolding applyInterfaceIcons_returns[OF about_doc_well_formed] about_doc_rewriting
  by (simp add: file_icons_loop_def metric_icons_loop_def metric_icon_callback_def
      querySelectorAll_def hasAttribute_def getAttribute_def textContent_def closest_def
      lookup_def all_nodes_def has_class_def js_def ascii_whitespace_def data_lucide_def
      trim_def strict_host_def lower_unit_def setAttribute_def about_done_def)

lemma about_done_facts:
  "querySelectorAll (sel_or (has_id (js ''sendButton'')) (has_class (js ''send-button''))) about_done
     = [8]"
  "querySelector (sel_and (tag_is (js ''svg'')) (has_class (js ''send-icon''))) 8 about_done = None"
  "querySelectorAll (has_class (js ''nav-item'')) about_done = [5]"
  "textContent 5 about_done = textContent 5 about_doc"
  "querySelector (has_class (js ''nav-item-icon'')) 5 about_done
     = querySelector (has_class (js ''nav-item-icon'')) 5 about_doc"
  by (simp_all add: querySelectorAll_def querySelector_def textContent_def lookup_def all_nodes_def
      about_done_def about_doc_def has_class_def has_id_def sel_or_def sel_and_def tag_is_def
      js_def ascii_whitespace_def)

theorem second_run_changes_nothing_witness:
  "applyIcons strict_host about_doc = (None, about_done)
   \<and> document about_done \<noteq> document about_doc
   \<and> applyIcons strict_host about_done = (None, about_done)"
proof -
  have d': "about_done = snd (applyInterfaceIcons strict_host about_doc)"
    by (simp add: about_doc_interface)
  have lib: "lucide strict_host = None" by (simp add: strict_host_def)
  have ne: "document about_done \<noteq> document about_doc"
    by (simp add: about_done_def about_doc_def)
  from second_run_changes_nothing [OF about_doc_well_formed about_doc_nav d', of]
       lib ne show ?thesis
    by (simp add: about_done_facts)
qed

text \<open>
  C9 as stated fails for a send button with two \<^verbatim>\<open>svg.send-icon\<close> elements:
  \<^verbatim>\<open>querySelector\<close> finds the first one only, so the first run replaces the first and the
  second run replaces the second. Neither run raises an exception.
\<close>

theorem second_run_replaces_second_svg:
  "applyIcons strict_host two_svg_doc = (None, two_svg_once)
   \<and> applyIcons strict_host (snd (applyIcons strict_host two_svg_doc)) = (None, two_svg_twice)
   \<and> document two_svg_twice \<noteq> document two_svg_once
   \<and> snd (applyIcons strict_host (snd (applyIcons strict_host two_svg_doc)))
       \<noteq> snd (applyIcons strict_host two_svg_doc)"
proof -
  have d: "document two_svg_twice \<noteq> document two_svg_once"
    by (simp add: two_svg_twice_def two_svg_once_def)
  with two_svg_runs_differ show ?thesis by (simp add: two_svg_first_run two_svg_second_run)
qed

text \<open>
  The rewriting of a menu button takes text out of the document; a navigation item around
  it can match a rule on the text in the second run that it did not match in the first.
  Here the first run raises no exception and sets no icon on the navigation item; the
  second run sets \<^verbatim>\<open>bot\<close> (and then raises on the assignment of line 95).
\<close>

lemma menu_rewrite_enables_text_rule:
  "applyIcons strict_host toggle_in_nav_doc = (None, toggle_in_nav_once)"
  "getAttribute 6 data_lucide toggle_in_nav_once = None"
  "applyIcons strict_host toggle_in_nav_once
     = (Some TypeError, setAttribute 6 data_lucide (js ''bot'') toggle_in_nav_once)"
  "getAttribute 6 data_lucide (setAttribute 6 data_lucide (js ''bot'') toggle_in_nav_once)
     = Some (js ''bot'')"
proof -
  have n1: "applyNavigationIcons strict_host toggle_in_nav_doc = (None, toggle_in_nav_doc)"
    by (simp add: applyNavigationIcons_def nav_item_callback_def
      querySelectorAll_def querySelector_def getAttribute_def hasAttribute_def lookup_def
      textContent_def all_nodes_def toggle_in_nav_doc_def has_class_def js_def
      ascii_whitespace_def data_lucide_def nav_icon_name_def)
  have i1: "applyInterfaceIcons strict_host toggle_in_nav_doc = (None, toggle_in_nav_once)"
    by (simp add: applyInterfaceIcons_def menu_buttons_loop_def send_buttons_loop_def
      file_icons_loop_def metric_icons_loop_def menu_button_callback_def set_innerHTML_def
      icon_markup_def querySelectorAll_def querySelector_def lookup_def all_nodes_def
      toggle_in_nav_doc_def toggle_in_nav_once_def has_class_def has_attr_def has_id_def
      sel_or_def js_def ascii_whitespace_def data_lucide_def)
  show "applyIcons strict_host toggle_in_nav_doc = (None, toggle_in_nav_once)"
    by (simp add: applyIcons_def n1 i1)
  show "getAttribute 6 data_lucide toggle_in_nav_once = None"
    by (simp add: getAttribute_def lookup_def all_nodes_def data_lucide_def toggle_in_nav_once_def)
  have n2: "applyNavigationIcons strict_host toggle_in_nav_once
              = (Some TypeError, setAttribute 6 data_lucide (js ''bot'') toggle_in_nav_once)"
    by (simp add: applyNavigationIcons_def nav_item_callback_def
      querySelectorAll_def querySelector_def getAttribute_def hasAttribute_def lookup_def
      textContent_def all_nodes_def has_class_def js_def toggle_in_nav_once_def
      ascii_whitespace_def data_lucide_def nav_icon_name_def iconMap_get_def iconMap_def
      strict_host_def)
  show "applyIcons strict_host toggle_in_nav_once
     = (Some TypeError, setAttribute 6 data_lucide (js ''bot'') toggle_in_nav_once)"
    by (simp add: applyIcons_def n2)
  have "lookup 6 toggle_in_nav_once \<noteq> None"
    by (simp add: lookup_def all_nodes_def toggle_in_nav_once_def)
  then show "getAttribute 6 data_lucide (setAttribute 6 data_lucide (js ''bot'') toggle_in_nav_once)
     = Some (js ''bot'')"
    by (simp add: getAttribute_setAttribute)
qed

section \<open>The assignment to tagName\<close>

text \<open>
  The assignment of line 95 raises in the browser, so the navigation pass ends at the
  first item it labels: the attribute of that item is set, the items after it are not
  reached, and neither the interface pass nor the render call runs. A second run skips
  the item that is labelled and ends at the next one.
\<close>

lemma tagName_assignment_ends_pass:
  "applyIcons strict_host two_links_doc
     = (Some TypeError, setAttribute 6 data_lucide (js ''graduation-cap'') two_links_doc)"
  "applyIcons strict_host (setAttribute 6 data_lucide (js ''graduation-cap'') two_links_doc)
     = (Some TypeError,
        setAttribute 8 data_lucide (js ''user'')
          (setAttribute 6 data_lucide (js ''graduation-cap'') two_links_doc))"
proof -
  have q: "querySelectorAll (has_class (js ''nav-item'')) two_links_doc = [5, 7]"
    by (simp add: querySelectorAll_def two_links_doc_def has_class_def js_def ascii_whitespace_def)
  have c5: "nav_item_callback strict_host 5 two_links_doc
              = (Some TypeError, setAttribute 6 data_lucide (js ''graduation-cap'') two_links_doc)"
    by (simp add: nav_item_callback_def querySelector_def getAttribute_def hasAttribute_def
        lookup_def textContent_def all_nodes_def two_links_doc_def has_class_def js_def
        ascii_whitespace_def data_lucide_def nav_icon_name_def iconMap_get_def iconMap_def
        strict_host_def)
  let ?d = "setAttribute 6 data_lucide (js ''graduation-cap'') two_links_doc"
  have q': "querySelectorAll (has_class (js ''nav-item'')) ?d = [5, 7]"
    by (simp add: querySelectorAll_setAttribute stable_has_class q)
  have c5': "nav_item_callback strict_host 5 ?d = (None, ?d)"
    by (simp add: nav_item_callback_def querySelector_def getAttribute_def hasAttribute_def
        lookup_def textContent_def all_nodes_def two_links_doc_def has_class_def js_def
        ascii_whitespace_def data_lucide_def setAttribute_def)
  have c7: "nav_item_callback strict_host 7 ?d
              = (Some TypeError, setAttribute 8 data_lucide (js ''user'') ?d)"
    by (simp add: nav_item_callback_def querySelector_def getAttribute_def hasAttribute_def
        lookup_def textContent_def all_nodes_def two_links_doc_def has_class_def js_def
        ascii_whitespace_def data_lucide_def nav_icon_name_def iconMap_get_def iconMap_def
        setAttribute_def strict_host_def)
  show "applyIcons strict_host two_links_doc = (Some TypeError, ?d)"
    by (simp add: applyIcons_def applyNavigationIcons_def q c5)
  show "applyIcons strict_host ?d = (Some TypeError, setAttribute 8 data_lucide (js ''user'') ?d)"
    by (simp add: applyIcons_def applyNavigationIcons_def q' c5' c7)
qed

end
